theory Spec2Isabelle
  imports Main
begin

section \<open>JavaScript values\<close>

text \<open>
  The interceptor of \<^verbatim>\<open>lib/interceptor.js\<close> is dynamically typed: its command, args and
  options specifications and its mock fields hold arbitrary JavaScript values, and the code
  dispatches on \<^verbatim>\<open>typeof v === 'function'\<close>, \<^verbatim>\<open>v instanceof RegExp\<close> and truthiness.
  Values are modelled by one datatype. Numbers are the integers (in the range where
  JavaScript prints them in plain decimal notation); strings are lists of code units below
  256; an object is the list of its own enumerable properties in enumeration order; a
  function or a regular expression is a reference into the tables of the \<open>runtime\<close> below.
\<close>

datatype jsval =
    JUndefined
  | JNull
  | JBool bool
  | JNum int
  | JStr string
  | JArr "jsval list"
  | JObj "(string \<times> jsval) list"
  | JFun nat
  | JRegExp nat

type_synonym obj = "(string \<times> jsval) list"

datatype error = TypeError | Thrown jsval

text \<open>Sequencing of computations that may throw.\<close>

definition andThen :: "error + 'a \<Rightarrow> ('a \<Rightarrow> error + 'b) \<Rightarrow> error + 'b" where
  "andThen m f = (case m of Inl e \<Rightarrow> Inl e | Inr x \<Rightarrow> f x)"

text \<open>\<^verbatim>\<open>typeof v === 'function'\<close> and \<^verbatim>\<open>v instanceof RegExp\<close>.\<close>

fun is_function :: "jsval \<Rightarrow> bool" where
  "is_function (JFun f) = True"
| "is_function v = False"

fun is_RegExp :: "jsval \<Rightarrow> bool" where
  "is_RegExp (JRegExp r) = True"
| "is_RegExp v = False"

text \<open>ToBoolean: the falsy values are undefined, null, false, 0 and the empty string.\<close>

fun truthy :: "jsval \<Rightarrow> bool" where
  "truthy JUndefined = False"
| "truthy JNull = False"
| "truthy (JBool b) = b"
| "truthy (JNum n) = (n \<noteq> 0)"
| "truthy (JStr s) = (s \<noteq> [])"
| "truthy v = True"

text \<open>
  Strict equality \<^verbatim>\<open>===\<close>: primitives are compared by value, functions and regular
  expressions by reference. Arrays and objects are compared by reference in JavaScript; a
  specification and an incoming call are taken to share no array or object, so two such
  values are never strictly equal.
\<close>

fun strict_eq :: "jsval \<Rightarrow> jsval \<Rightarrow> bool" where
  "strict_eq JUndefined JUndefined = True"
| "strict_eq JNull JNull = True"
| "strict_eq (JBool a) (JBool b) = (a = b)"
| "strict_eq (JNum a) (JNum b) = (a = b)"
| "strict_eq (JStr a) (JStr b) = (a = b)"
| "strict_eq (JFun a) (JFun b) = (a = b)"
| "strict_eq (JRegExp a) (JRegExp b) = (a = b)"
| "strict_eq v w = False"

subsection \<open>Number and string conversion\<close>

definition digit_char :: "nat \<Rightarrow> char" where
  "digit_char n = ''0123456789abcdef'' ! (n mod 16)"

fun digits :: "nat \<Rightarrow> string" where
  "digits n = (if n < 10 then [digit_char n] else digits (n div 10) @ [digit_char (n mod 10)])"

declare digits.simps [simp del]

definition show_int :: "int \<Rightarrow> string" where
  "show_int i = (if i < 0 then CHR ''-'' # digits (nat (- i)) else digits (nat i))"

text \<open>\<^verbatim>\<open>Array.prototype.join\<close> on strings already converted.\<close>

fun join :: "string \<Rightarrow> string list \<Rightarrow> string" where
  "join sep [] = []"
| "join sep [x] = x"
| "join sep (x # y # ys) = x @ sep @ join sep (y # ys)"

subsection \<open>JSON.stringify\<close>

text \<open>
  QuoteJSONString: the quotation mark and the backslash are escaped with a backslash, the
  control characters below 0x20 by their short escape or by \<^verbatim>\<open>\u00XX\<close>.
\<close>

definition json_quote_char :: "char \<Rightarrow> string" where
  "json_quote_char c =
     (if c = CHR 0x22 then [CHR 0x5C, CHR 0x22]
      else if c = CHR 0x5C then [CHR 0x5C, CHR 0x5C]
      else if c = CHR 0x08 then [CHR 0x5C, CHR ''b'']
      else if c = CHR 0x0C then [CHR 0x5C, CHR ''f'']
      else if c = CHR 0x0A then [CHR 0x5C, CHR ''n'']
      else if c = CHR 0x0D then [CHR 0x5C, CHR ''r'']
      else if c = CHR 0x09 then [CHR 0x5C, CHR ''t'']
      else if (of_char c :: nat) < 32
        then [CHR 0x5C, CHR ''u'', CHR ''0'', CHR ''0'',
              digit_char (of_char c div 16), digit_char (of_char c mod 16)]
      else [c])"

definition json_quote :: "string \<Rightarrow> string" where
  "json_quote s = CHR 0x22 # concat (map json_quote_char s) @ [CHR 0x22]"

text \<open>
  \<^verbatim>\<open>JSON.stringify(v)\<close>; \<open>None\<close> is the result \<^verbatim>\<open>undefined\<close>. Inside an array an
  unserialisable element is written \<^verbatim>\<open>null\<close>, inside an object its property is left out.
  A regular expression has no enumerable property of its own.
\<close>

fun stringify :: "jsval \<Rightarrow> string option" where
  "stringify JUndefined = None"
| "stringify JNull = Some ''null''"
| "stringify (JBool b) = Some (if b then ''true'' else ''false'')"
| "stringify (JNum n) = Some (show_int n)"
| "stringify (JStr s) = Some (json_quote s)"
| "stringify (JArr xs) =
     Some (''['' @ join '','' (map (\<lambda>x. case stringify x of None \<Rightarrow> ''null'' | Some s \<Rightarrow> s) xs) @ '']'')"
| "stringify (JObj kvs) =
     Some (''{'' @ join '','' (concat (map (\<lambda>kv. case stringify (snd kv) of None \<Rightarrow> []
                                               | Some s \<Rightarrow> [json_quote (fst kv) @ '':'' @ s]) kvs)) @ ''}'')"
| "stringify (JFun f) = None"
| "stringify (JRegExp r) = Some ''{}''"

subsection \<open>Properties\<close>

text \<open>
  The own enumerable properties of a value after ToObject: those of an object, the indices
  of an array, the indices of a string. Inherited properties and the \<^verbatim>\<open>length\<close> of
  arrays and strings are not modelled; the keys of an object are taken to be distinct.
\<close>

fun indexed :: "nat \<Rightarrow> jsval list \<Rightarrow> obj" where
  "indexed i [] = []"
| "indexed i (x # xs) = (digits i, x) # indexed (Suc i) xs"

fun props :: "jsval \<Rightarrow> obj" where
  "props (JObj kvs) = kvs"
| "props (JArr xs) = indexed 0 xs"
| "props (JStr s) = indexed 0 (map (\<lambda>c. JStr [c]) s)"
| "props v = []"

fun nullish :: "jsval \<Rightarrow> bool" where
  "nullish JUndefined = True"
| "nullish JNull = True"
| "nullish v = False"

text \<open>\<^verbatim>\<open>Object.prototype.hasOwnProperty.call(v, k)\<close>.\<close>

definition hasOwnProperty :: "jsval \<Rightarrow> string \<Rightarrow> error + bool" where
  "hasOwnProperty v k = (if nullish v then Inl TypeError else Inr (map_of (props v) k \<noteq> None))"

text \<open>\<^verbatim>\<open>Object.keys(v)\<close>.\<close>

definition keys :: "jsval \<Rightarrow> error + string list" where
  "keys v = (if nullish v then Inl TypeError else Inr (map fst (props v)))"

text \<open>
  The property read \<^verbatim>\<open>v[k]\<close>: a TypeError on null and undefined; a missing property
  reads as undefined.
\<close>

definition property :: "jsval \<Rightarrow> string \<Rightarrow> jsval" where
  "property v k = (case map_of (props v) k of None \<Rightarrow> JUndefined | Some x \<Rightarrow> x)"

definition get :: "jsval \<Rightarrow> string \<Rightarrow> error + jsval" where
  "get v k = (if nullish v then Inl TypeError else Inr (property v k))"

section \<open>The facade and the user's functions\<close>

text \<open>
  Class \<^verbatim>\<open>API\<close>: what the facade's getters \<^verbatim>\<open>command\<close>, \<^verbatim>\<open>args\<close>, \<^verbatim>\<open>options\<close>,
  \<^verbatim>\<open>called\<close> and \<^verbatim>\<open>calledWith\<close> return. It is the \<^verbatim>\<open>this\<close> of every function the user
  supplies.
\<close>

record API =
  api_command :: jsval
  api_args :: jsval
  api_options :: jsval
  api_called :: bool
  api_calledWith :: jsval

text \<open>
  What a function of the user can do to the interceptor: it holds the facade only, so it
  reads the five getters and may call the fluent setters \<^verbatim>\<open>exit\<close>, \<^verbatim>\<open>signal\<close>,
  \<^verbatim>\<open>stdout\<close> and \<^verbatim>\<open>stderr\<close>. It ends by returning a value or by throwing one.
  The value may be a promise, as that of an \<^verbatim>\<open>async\<close> function is.
\<close>

datatype setter = CallExit jsval | CallSignal jsval | CallStdout jsval | CallStderr jsval

datatype outcome = Return jsval | Throw jsval

text \<open>
  A promise, or any other thenable, is an object with a \<^verbatim>\<open>then\<close> method (inherited
  properties not being modelled, the method is written as a property of the object). What
  becomes of the promise that adopts it: it is fulfilled with a value or rejected with a
  reason, so many turns of the event loop after the adoption, or it never settles. The
  value of a fulfilment is the final one, after any further adoption.
\<close>

datatype settlement = Fulfilled nat jsval | Rejected nat jsval | Never

text \<open>
  The functions and regular expressions that values refer to: the behaviour of function
  \<open>f\<close> called with \<^verbatim>\<open>this\<close> and an argument list, the \<^verbatim>\<open>test\<close> method of regular
  expression \<open>r\<close> (without the \<^verbatim>\<open>g\<close> and \<^verbatim>\<open>y\<close> flags, so that it depends on the string
  alone), their \<^verbatim>\<open>toString()\<close>, and what function \<open>f\<close> does as the \<^verbatim>\<open>then\<close> method
  of a thenable that a promise adopts (its arguments are then the resolving functions of
  that promise, so \<open>invoke\<close> does not describe this call).
\<close>

record runtime =
  invoke :: "nat \<Rightarrow> API \<Rightarrow> jsval list \<Rightarrow> setter list \<times> outcome"
  regexp_test :: "nat \<Rightarrow> string \<Rightarrow> bool"
  function_text :: "nat \<Rightarrow> string"
  regexp_text :: "nat \<Rightarrow> string"
  settles :: "nat \<Rightarrow> jsval \<Rightarrow> settlement"

text \<open>ToString; an array joins its elements with commas, null and undefined elements as empty.\<close>

fun to_string :: "runtime \<Rightarrow> jsval \<Rightarrow> string" where
  "to_string rt JUndefined = ''undefined''"
| "to_string rt JNull = ''null''"
| "to_string rt (JBool b) = (if b then ''true'' else ''false'')"
| "to_string rt (JNum n) = show_int n"
| "to_string rt (JStr s) = s"
| "to_string rt (JArr xs) = join '','' (map (\<lambda>x. if nullish x then [] else to_string rt x) xs)"
| "to_string rt (JObj kvs) = ''[object Object]''"
| "to_string rt (JFun f) = function_text rt f"
| "to_string rt (JRegExp r) = regexp_text rt r"

text \<open>The method call \<^verbatim>\<open>v.toString()\<close>, a TypeError on null and undefined.\<close>

definition toString :: "runtime \<Rightarrow> jsval \<Rightarrow> error + string" where
  "toString rt v = (if nullish v then Inl TypeError else Inr (to_string rt v))"

section \<open>compareOptions\<close>

definition serializable :: "string list" where
  "serializable = [''cwd'', ''argv0'', ''detached'', ''uid'', ''gid'', ''serialization'',
    ''shell'', ''windowsVerbatimArguments'', ''windowsHide'', ''stdio'']"

text \<open>
  The first loop of \<^verbatim>\<open>compareOptions\<close>; \<open>Inr False\<close> is its \<^verbatim>\<open>return false\<close>,
  \<open>Inr True\<close> its normal end.
\<close>

fun compare_attrs :: "jsval \<Rightarrow> jsval \<Rightarrow> string list \<Rightarrow> error + bool" where
  "compare_attrs defined called [] = Inr True"
| "compare_attrs defined called (attr # attrs) =
     (case hasOwnProperty defined attr of
        Inl e \<Rightarrow> Inl e
      | Inr False \<Rightarrow> compare_attrs defined called attrs
      | Inr True \<Rightarrow>
          (case get defined attr of
             Inl e \<Rightarrow> Inl e
           | Inr d \<Rightarrow>
               (case get called attr of
                  Inl e \<Rightarrow> Inl e
                | Inr c \<Rightarrow>
                    if stringify d \<noteq> stringify c then Inr False
                    else compare_attrs defined called attrs)))"

text \<open>The loop over \<^verbatim>\<open>Object.keys(defined.env)\<close>; \<^verbatim>\<open>called.env\<close> is read at every key.\<close>

fun compare_env :: "jsval \<Rightarrow> jsval \<Rightarrow> string list \<Rightarrow> error + bool" where
  "compare_env defined called [] = Inr True"
| "compare_env defined called (envKey # envKeys) =
     andThen (get defined ''env'') (\<lambda>denv.
     andThen (get denv envKey) (\<lambda>d.
     andThen (get called ''env'') (\<lambda>cenv.
     andThen (get cenv envKey) (\<lambda>c.
       if \<not> strict_eq d c then Inr False else compare_env defined called envKeys))))"

definition compareOptions :: "jsval \<Rightarrow> jsval \<Rightarrow> error + bool" where
  "compareOptions defined called =
     (case compare_attrs defined called serializable of
        Inl e \<Rightarrow> Inl e
      | Inr False \<Rightarrow> Inr False
      | Inr True \<Rightarrow>
          andThen (hasOwnProperty defined ''env'') (\<lambda>h.
            if h then
              andThen (hasOwnProperty called ''env'') (\<lambda>hc.
                if \<not> hc then Inr False
                else
                  andThen (get defined ''env'') (\<lambda>denv.
                  andThen (keys denv) (\<lambda>envKeys.
                    compare_env defined called envKeys)))
            else Inr True))"

section \<open>The interceptor\<close>

text \<open>
  The \<^verbatim>\<open>mocks\<close> object; \<^verbatim>\<open>stdout\<close> and \<^verbatim>\<open>stderr\<close> are absent after construction and so
  read as undefined. (The constructor also stores a \<^verbatim>\<open>child\<close> there that nothing reads.)
\<close>

record mocks =
  mock_exitCode :: jsval
  mock_signal :: jsval
  mock_stdout :: jsval
  mock_stderr :: jsval

text \<open>
  \<^verbatim>\<open>child\<close> is a reference to the process handle of the last \<^verbatim>\<open>run\<close>: an index into
  the heap of the \<open>world\<close> below.
\<close>

record interceptor =
  mocks :: mocks
  command :: jsval
  args :: jsval
  options :: jsval
  called :: bool
  calledWith :: jsval
  child :: "nat option"

definition Interceptor :: "jsval \<Rightarrow> jsval \<Rightarrow> jsval \<Rightarrow> interceptor" where
  "Interceptor command' args' options' =
     \<lparr>mocks = \<lparr>mock_exitCode = JNum 0, mock_signal = JNull,
               mock_stdout = JUndefined, mock_stderr = JUndefined\<rparr>,
      command = command', args = args', options = options',
      called = False, calledWith = JUndefined, child = None\<rparr>"

text \<open>The getters of the facade, read off the interceptor behind it.\<close>

definition api :: "interceptor \<Rightarrow> API" where
  "api I =
     \<lparr>api_command = command I, api_args = args I, api_options = options I,
      api_called = called I,
      api_calledWith = (if called I then calledWith I else JUndefined)\<rparr>"

text \<open>The setters of the interceptor and the fluent methods of the facade that call them.\<close>

definition set_exitCode :: "interceptor \<Rightarrow> jsval \<Rightarrow> interceptor" where
  "set_exitCode I code = I\<lparr>mocks := (mocks I)\<lparr>mock_exitCode := code\<rparr>\<rparr>"

definition set_signal :: "interceptor \<Rightarrow> jsval \<Rightarrow> interceptor" where
  "set_signal I sig = I\<lparr>mocks := (mocks I)\<lparr>mock_signal := sig\<rparr>\<rparr>"

definition set_stdout :: "interceptor \<Rightarrow> jsval \<Rightarrow> interceptor" where
  "set_stdout I out = I\<lparr>mocks := (mocks I)\<lparr>mock_stdout := out\<rparr>\<rparr>"

definition set_stderr :: "interceptor \<Rightarrow> jsval \<Rightarrow> interceptor" where
  "set_stderr I err = I\<lparr>mocks := (mocks I)\<lparr>mock_stderr := err\<rparr>\<rparr>"

fun apply_setter :: "interceptor \<Rightarrow> setter \<Rightarrow> interceptor" where
  "apply_setter I (CallExit code) = set_exitCode I code"
| "apply_setter I (CallSignal sig) = set_signal I sig"
| "apply_setter I (CallStdout out) = set_stdout I out"
| "apply_setter I (CallStderr err) = set_stderr I err"

text \<open>
  \<^verbatim>\<open>f.call(this.api, ...)\<close>: the function runs with the facade as it stands at the call;
  the setters it called have changed the mocks when it returns or throws.
\<close>

definition call_function ::
  "runtime \<Rightarrow> interceptor \<Rightarrow> nat \<Rightarrow> jsval list \<Rightarrow> (error + jsval) \<times> interceptor" where
  "call_function rt I f xs =
     (case invoke rt f (api I) xs of
        (calls, Return v) \<Rightarrow> (Inr v, foldl apply_setter I calls)
      | (calls, Throw e) \<Rightarrow> (Inl (Thrown e), foldl apply_setter I calls))"

text \<open>
  The getters \<^verbatim>\<open>exitCode\<close>, \<^verbatim>\<open>signal\<close>, \<^verbatim>\<open>stdout\<close> and \<^verbatim>\<open>stderr\<close> of the interceptor
  share one body: a mock that is a function is called on the facade with no argument,
  any other mock is the value.
\<close>

definition deferred :: "runtime \<Rightarrow> interceptor \<Rightarrow> jsval \<Rightarrow> (error + jsval) \<times> interceptor" where
  "deferred rt I mock = (case mock of JFun f \<Rightarrow> call_function rt I f [] | v \<Rightarrow> (Inr v, I))"

definition get_exitCode :: "runtime \<Rightarrow> interceptor \<Rightarrow> (error + jsval) \<times> interceptor" where
  "get_exitCode rt I = deferred rt I (mock_exitCode (mocks I))"

definition get_signal :: "runtime \<Rightarrow> interceptor \<Rightarrow> (error + jsval) \<times> interceptor" where
  "get_signal rt I = deferred rt I (mock_signal (mocks I))"

definition get_stdout :: "runtime \<Rightarrow> interceptor \<Rightarrow> (error + jsval) \<times> interceptor" where
  "get_stdout rt I = deferred rt I (mock_stdout (mocks I))"

definition get_stderr :: "runtime \<Rightarrow> interceptor \<Rightarrow> (error + jsval) \<times> interceptor" where
  "get_stderr rt I = deferred rt I (mock_stderr (mocks I))"

subsection \<open>match\<close>

text \<open>A default parameter value applies when the argument is undefined.\<close>

definition default_to :: "jsval \<Rightarrow> jsval \<Rightarrow> jsval" where
  "default_to d v = (if v = JUndefined then d else v)"

text \<open>
  A criterion given as a function: \<^verbatim>\<open>if (!f.call(this.api, ...)) return false\<close>.
\<close>

definition predicate ::
  "runtime \<Rightarrow> interceptor \<Rightarrow> nat \<Rightarrow> jsval list \<Rightarrow> (error + bool) \<times> interceptor" where
  "predicate rt I f xs =
     (case call_function rt I f xs of
        (Inl e, I') \<Rightarrow> (Inl e, I')
      | (Inr v, I') \<Rightarrow> (Inr (truthy v), I'))"

text \<open>
  The three criteria of \<^verbatim>\<open>match\<close>, in the order of the source. Each returns whether the
  call passed it (\<open>Inr False\<close> is the \<^verbatim>\<open>return false\<close> of the source), or the error
  thrown on the way, and the interceptor as the called functions left it.
\<close>

definition match_command ::
  "runtime \<Rightarrow> interceptor \<Rightarrow> jsval \<Rightarrow> jsval \<Rightarrow> jsval \<Rightarrow> (error + bool) \<times> interceptor" where
  "match_command rt I command' args' options' =
     (case command I of
        JFun f \<Rightarrow> predicate rt I f [command', args', options']
      | JRegExp r \<Rightarrow> (Inr (regexp_test rt r (to_string rt command')), I)
      | v \<Rightarrow> (Inr (strict_eq command' v), I))"

definition match_args ::
  "runtime \<Rightarrow> interceptor \<Rightarrow> jsval \<Rightarrow> (error + bool) \<times> interceptor" where
  "match_args rt I args' =
     (case args I of
        JFun f \<Rightarrow> predicate rt I f [args']
      | v \<Rightarrow>
          if truthy v then
            (andThen (toString rt v) (\<lambda>s. andThen (toString rt args') (\<lambda>s'. Inr (s = s'))), I)
          else (Inr True, I))"

definition match_options ::
  "runtime \<Rightarrow> interceptor \<Rightarrow> jsval \<Rightarrow> (error + bool) \<times> interceptor" where
  "match_options rt I options' =
     (case options I of
        JFun f \<Rightarrow> predicate rt I f [options']
      | v \<Rightarrow> if truthy v then (compareOptions v options', I) else (Inr True, I))"

definition match ::
  "runtime \<Rightarrow> interceptor \<Rightarrow> jsval \<Rightarrow> jsval \<Rightarrow> jsval \<Rightarrow> (error + bool) \<times> interceptor" where
  "match rt I command' args0 options0 =
     (let args' = default_to (JArr []) args0; options' = default_to (JObj []) options0 in
      if called I then (Inr False, I)
      else
        (case match_command rt I command' args' options' of
           (Inr True, I1) \<Rightarrow>
             (case match_args rt I1 args' of
                (Inr True, I2) \<Rightarrow> match_options rt I2 options'
              | r \<Rightarrow> r)
         | r \<Rightarrow> r))"

section \<open>The process handle and the event loop\<close>

text \<open>
  A \<^verbatim>\<open>stream.PassThrough\<close>: the chunks written so far and whether \<^verbatim>\<open>end()\<close> was
  called. \<^verbatim>\<open>write\<close> throws a TypeError on a chunk that is not a string, as the streams
  of current versions of Node do (buffers are not modelled); a write after the end stores
  nothing and puts the stream in error.
\<close>

record stream =
  written :: "string list"
  ended :: bool
  errored :: bool

definition PassThrough :: stream where
  "PassThrough = \<lparr>written = [], ended = False, errored = False\<rparr>"

definition write_chunk :: "stream \<Rightarrow> jsval \<Rightarrow> error + stream" where
  "write_chunk s chunk =
     (case chunk of
        JStr x \<Rightarrow> Inr (if ended s then s\<lparr>errored := True\<rparr> else s\<lparr>written := written s @ [x]\<rparr>)
      | v \<Rightarrow> Inl TypeError)"

definition end_stream :: "stream \<Rightarrow> stream" where
  "end_stream s = s\<lparr>ended := True\<rparr>"


text \<open>
  The events a handle has emitted, each with the number of the turn of the event loop it
  was emitted in.
\<close>

datatype event = Spawn | Exit jsval jsval | Close jsval jsval

record ChildProcess =
  stdin :: stream
  stdout :: stream
  stderr :: stream
  spawnargs :: jsval
  exitCode :: jsval
  signalCode :: jsval
  connected :: bool
  events :: "(nat \<times> event) list"

definition emit :: "nat \<Rightarrow> event \<Rightarrow> ChildProcess \<Rightarrow> ChildProcess" where
  "emit t ev c = c\<lparr>events := events c @ [(t, ev)]\<rparr>"

text \<open>
  The two pieces of the function given to \<^verbatim>\<open>process.nextTick\<close>: up to the \<^verbatim>\<open>await\<close>
  (reading the four getters), and after it. The second resumes when the promise of
  \<^verbatim>\<open>Promise.all\<close> has settled, so many turns from now, with the four values that promise
  was fulfilled with or by throwing the reason it was rejected with.
\<close>

datatype job = Resolution | Continuation nat "error + jsval \<times> jsval \<times> jsval \<times> jsval"

text \<open>
  The interceptor, the handles allocated so far, the number of the turn that is running,
  the queue of \<^verbatim>\<open>process.nextTick\<close>, the queue of promise jobs, and the errors of the
  promises that were rejected with nobody to handle them.
\<close>

record world =
  interceptor :: interceptor
  heap :: "ChildProcess list"
  turn :: nat
  nextTickQueue :: "job list"
  microtaskQueue :: "job list"
  rejections :: "error list"

definition new_world :: "interceptor \<Rightarrow> world" where
  "new_world I =
     \<lparr>interceptor = I, heap = [], turn = 0, nextTickQueue = [], microtaskQueue = [],
      rejections = []\<rparr>"

subsection \<open>run\<close>

text \<open>
  The synchronous part of \<^verbatim>\<open>run\<close>: it returns the reference to the new handle. The
  handle of \<^verbatim>\<open>new cp.ChildProcess()\<close> has \<^verbatim>\<open>exitCode\<close> and \<^verbatim>\<open>signalCode\<close> null and
  \<^verbatim>\<open>connected\<close> false; \<^verbatim>\<open>stdio\<close> is the list of its three streams.
\<close>

definition run :: "world \<Rightarrow> jsval \<Rightarrow> jsval \<Rightarrow> jsval \<Rightarrow> nat \<times> world" where
  "run w command' args' options' =
     (let h = length (heap w);
          I = (interceptor w)
                \<lparr>called := True,
                 calledWith := JObj [(''command'', command'), (''args'', args'),
                                     (''options'', options')],
                 child := Some h\<rparr>;
          c = \<lparr>stdin = PassThrough, stdout = PassThrough, stderr = PassThrough,
               spawnargs = args', exitCode = JNull, signalCode = JNull, connected = False,
               events = []\<rparr>
      in (h, w\<lparr>interceptor := I,
               heap := heap w @ [emit (turn w) Spawn c],
               nextTickQueue := nextTickQueue w @ [Resolution]\<rparr>))"

definition stdio :: "ChildProcess \<Rightarrow> stream list" where
  "stdio c = [stdin c, stdout c, stderr c]"

text \<open>
  The array \<^verbatim>\<open>[this.exitCode, this.signal, this.stdout, this.stderr]\<close>: the getters are
  read from left to right, and the first that throws ends the evaluation.
\<close>

definition resolve ::
  "runtime \<Rightarrow> interceptor \<Rightarrow> (error + jsval \<times> jsval \<times> jsval \<times> jsval) \<times> interceptor" where
  "resolve rt I =
     (case get_exitCode rt I of
        (Inl e, I1) \<Rightarrow> (Inl e, I1)
      | (Inr code, I1) \<Rightarrow>
          (case get_signal rt I1 of
             (Inl e, I2) \<Rightarrow> (Inl e, I2)
           | (Inr sig, I2) \<Rightarrow>
               (case get_stdout rt I2 of
                  (Inl e, I3) \<Rightarrow> (Inl e, I3)
                | (Inr out, I3) \<Rightarrow>
                    (case get_stderr rt I3 of
                       (Inl e, I4) \<Rightarrow> (Inl e, I4)
                     | (Inr err, I4) \<Rightarrow> (Inr (code, sig, out, err), I4)))))"

text \<open>
  The statements after the \<^verbatim>\<open>await\<close>, on the handle \<^verbatim>\<open>this.child\<close>, in turn \<open>t\<close>. A
  \<^verbatim>\<open>write\<close> that throws ends them; the handle keeps what was assigned before.
\<close>

definition complete ::
  "nat \<Rightarrow> jsval \<Rightarrow> jsval \<Rightarrow> jsval \<Rightarrow> jsval \<Rightarrow> ChildProcess \<Rightarrow> error option \<times> ChildProcess" where
  "complete t code sig out err c =
     (let c1 = c\<lparr>exitCode := code, signalCode := sig, connected := False\<rparr> in
      case (if truthy out then write_chunk (stdout c1) out else Inr (stdout c1)) of
        Inl e \<Rightarrow> (Some e, c1)
      | Inr so \<Rightarrow>
          (let c2 = c1\<lparr>stdout := end_stream so\<rparr> in
           case (if truthy err then write_chunk (stderr c2) err else Inr (stderr c2)) of
             Inl e \<Rightarrow> (Some e, c2)
           | Inr se \<Rightarrow>
               (let c3 = c2\<lparr>stderr := end_stream se\<rparr> in
                (None, emit t (Close code sig) (emit t (Exit code sig) c3)))))"

subsection \<open>await Promise.all\<close>

text \<open>The \<^verbatim>\<open>then\<close> method of a value, if it has one: then the value is a thenable.\<close>

definition then_method :: "jsval \<Rightarrow> nat option" where
  "then_method v = (case map_of (props v) ''then'' of Some (JFun f) \<Rightarrow> Some f | _ \<Rightarrow> None)"

text \<open>
  \<^verbatim>\<open>Promise.resolve(v)\<close>, as \<^verbatim>\<open>Promise.all\<close> applies it to each element: a thenable is
  adopted, any other value fulfils the promise at once.
\<close>

definition adopt :: "runtime \<Rightarrow> jsval \<Rightarrow> settlement" where
  "adopt rt v = (case then_method v of Some f \<Rightarrow> settles rt f v | None \<Rightarrow> Fulfilled 0 v)"

text \<open>
  The promise of \<^verbatim>\<open>Promise.all\<close> is rejected as soon as one element is, with the reason
  of that element (of the first in the array if several are rejected in the same turn).
\<close>

fun earliest_rejection :: "settlement list \<Rightarrow> (nat \<times> jsval) option" where
  "earliest_rejection [] = None"
| "earliest_rejection (Rejected d e # ss) =
     (case earliest_rejection ss of
        None \<Rightarrow> Some (d, e)
      | Some (d', e') \<Rightarrow> if d' < d then Some (d', e') else Some (d, e))"
| "earliest_rejection (s # ss) = earliest_rejection ss"

fun fulfilled :: "settlement \<Rightarrow> (nat \<times> jsval) option" where
  "fulfilled (Fulfilled d v) = Some (d, v)"
| "fulfilled s = None"

text \<open>
  \<^verbatim>\<open>await Promise.all([code, sig, out, err])\<close>: when and how the asynchronous function
  resumes, \<open>None\<close> if it never does. Without a rejection, the promise is fulfilled with
  the values of the four elements once all four are fulfilled, and never settles if one
  of them never does.
\<close>

fun await_all ::
  "runtime \<Rightarrow> jsval \<times> jsval \<times> jsval \<times> jsval \<Rightarrow>
   (nat \<times> (error + jsval \<times> jsval \<times> jsval \<times> jsval)) option" where
  "await_all rt (code, sig, out, err) =
     (case earliest_rejection [adopt rt code, adopt rt sig, adopt rt out, adopt rt err] of
        Some (d, e) \<Rightarrow> Some (d, Inl (Thrown e))
      | None \<Rightarrow>
          Option.bind (fulfilled (adopt rt code)) (\<lambda>(d1, v1).
          Option.bind (fulfilled (adopt rt sig)) (\<lambda>(d2, v2).
          Option.bind (fulfilled (adopt rt out)) (\<lambda>(d3, v3).
          Option.bind (fulfilled (adopt rt err)) (\<lambda>(d4, v4).
            Some (max (max d1 d2) (max d3 d4), Inr (v1, v2, v3, v4)))))))"

declare await_all.simps [simp del]

subsection \<open>The event loop\<close>

text \<open>
  Running one job. An error thrown by a getter or by a \<^verbatim>\<open>write\<close>, or the rejection of the
  awaited promise, rejects the promise of the asynchronous function. A continuation whose
  promise has not settled yet waits for another turn.
\<close>

fun exec :: "runtime \<Rightarrow> job \<Rightarrow> world \<Rightarrow> world" where
  "exec rt Resolution w =
     (case resolve rt (interceptor w) of
        (Inl e, I) \<Rightarrow> w\<lparr>interceptor := I, rejections := rejections w @ [e]\<rparr>
      | (Inr vs, I) \<Rightarrow>
          (case await_all rt vs of
             None \<Rightarrow> w\<lparr>interceptor := I\<rparr>
           | Some (d, r) \<Rightarrow>
               w\<lparr>interceptor := I, microtaskQueue := microtaskQueue w @ [Continuation d r]\<rparr>))"
| "exec rt (Continuation (Suc d) r) w =
     w\<lparr>microtaskQueue := microtaskQueue w @ [Continuation d r]\<rparr>"
| "exec rt (Continuation 0 (Inl e)) w = w\<lparr>rejections := rejections w @ [e]\<rparr>"
| "exec rt (Continuation 0 (Inr (code, sig, out, err))) w =
     (case child (interceptor w) of
        None \<Rightarrow> w\<lparr>rejections := rejections w @ [TypeError]\<rparr>
      | Some h \<Rightarrow>
          if h < length (heap w) then
            (case complete (turn w) code sig out err (heap w ! h) of
               (None, c) \<Rightarrow> w\<lparr>heap := (heap w)[h := c]\<rparr>
             | (Some e, c) \<Rightarrow> w\<lparr>heap := (heap w)[h := c], rejections := rejections w @ [e]\<rparr>)
          else w\<lparr>rejections := rejections w @ [TypeError]\<rparr>)"

text \<open>
  One turn of the event loop: the next \<^verbatim>\<open>process.nextTick\<close> callback if there is one,
  else the next promise job.
\<close>

definition step :: "runtime \<Rightarrow> world \<Rightarrow> world" where
  "step rt w =
     (case nextTickQueue w of
        j # js \<Rightarrow> exec rt j (w\<lparr>nextTickQueue := js, turn := Suc (turn w)\<rparr>)
      | [] \<Rightarrow>
          (case microtaskQueue w of
             j # js \<Rightarrow> exec rt j (w\<lparr>microtaskQueue := js, turn := Suc (turn w)\<rparr>)
           | [] \<Rightarrow> w))"

text \<open>
  Running the loop until both queues are empty. A \<open>Resolution\<close> leaves at most one
  \<open>Continuation\<close> behind, and a \<open>Continuation\<close> itself with one turn less to wait or
  nothing, so the loop ends.
\<close>

fun resolutions :: "job \<Rightarrow> nat" where
  "resolutions Resolution = 1"
| "resolutions (Continuation d r) = 0"

fun waits :: "job \<Rightarrow> nat" where
  "waits Resolution = 0"
| "waits (Continuation d r) = Suc d"

definition pending :: "world \<Rightarrow> nat \<times> nat" where
  "pending w =
     (sum_list (map resolutions (nextTickQueue w @ microtaskQueue w)),
      sum_list (map waits (nextTickQueue w @ microtaskQueue w)))"

function drain :: "runtime \<Rightarrow> world \<Rightarrow> world" where
  "drain rt w =
     (if nextTickQueue w = [] \<and> microtaskQueue w = [] then w else drain rt (step rt w))"
  by pat_completeness auto
termination
proof (relation "inv_image (less_than <*lex*> less_than) (\<lambda>(rt, w). pending w)")
  show "wf (inv_image (less_than <*lex*> less_than) (\<lambda>(rt, w). pending w))"
    by (intro wf_inv_image wf_lex_prod wf_less_than)
next
  fix rt :: runtime and w :: world
  assume busy: "\<not> (nextTickQueue w = [] \<and> microtaskQueue w = [])"
  have ex: "(pending (exec rt j v), (fst (pending v) + resolutions j, snd (pending v) + waits j))
      \<in> less_than <*lex*> less_than" for j v
  proof (cases j)
    case Resolution
    then show ?thesis
      by (auto simp: pending_def split: prod.splits sum.splits option.splits)
  next
    case (Continuation d r)
    show ?thesis
    proof (cases d)
      case 0
      with Continuation show ?thesis
        by (cases r) (auto simp: pending_def split: prod.splits sum.splits option.splits)
    next
      case (Suc n)
      with Continuation show ?thesis by (simp add: pending_def)
    qed
  qed
  have "(pending (step rt w), pending w) \<in> less_than <*lex*> less_than"
  proof (cases "nextTickQueue w")
    case (Cons j js)
    with ex [of j "w\<lparr>nextTickQueue := js, turn := Suc (turn w)\<rparr>"]
    show ?thesis by (simp add: step_def pending_def add.commute add.left_commute)
  next
    case Nil
    with busy obtain j js where m: "microtaskQueue w = j # js"
      by (cases "microtaskQueue w") auto
    with Nil ex [of j "w\<lparr>microtaskQueue := js, turn := Suc (turn w)\<rparr>"]
    show ?thesis by (simp add: step_def pending_def add.commute add.left_commute)
  qed
  then show "((rt, step rt w), (rt, w))
      \<in> inv_image (less_than <*lex*> less_than) (\<lambda>(rt, w). pending w)" by simp
qed

declare drain.simps [simp del]

section \<open>Notions for the statements\<close>

text \<open>
  Two states of an interceptor that differ in the mocks at most: every other field is the
  same. The user's functions reach the interceptor through the setters of the facade only,
  so this is all they can change.
\<close>

definition same_but_mocks :: "interceptor \<Rightarrow> interceptor \<Rightarrow> bool" where
  "same_but_mocks I J = (J = I\<lparr>mocks := mocks J\<rparr>)"

text \<open>The strings of a list hold no comma.\<close>

definition comma_free :: "string list \<Rightarrow> bool" where
  "comma_free xs = (\<forall>x \<in> set xs. CHR '','' \<notin> set x)"

text \<open>The handle as \<open>run\<close> leaves it.\<close>

definition spawned :: "nat \<Rightarrow> jsval \<Rightarrow> ChildProcess" where
  "spawned t args' =
     \<lparr>stdin = PassThrough, stdout = PassThrough, stderr = PassThrough,
      spawnargs = args', exitCode = JNull, signalCode = JNull, connected = False,
      events = [(t, Spawn)]\<rparr>"

text \<open>
  The mocks that the resolution can hand to the streams: a string, or a falsy value, of
  which nothing is written; and the chunks written of such a mock.
\<close>

definition writable :: "jsval \<Rightarrow> bool" where
  "writable v = (case v of JStr s \<Rightarrow> True | _ \<Rightarrow> \<not> truthy v)"

definition chunks :: "jsval \<Rightarrow> string list" where
  "chunks v = (case v of JStr s \<Rightarrow> if s = [] then [] else [s] | _ \<Rightarrow> [])"

text \<open>
  Jobs are queued by \<open>run\<close> only, which sets \<open>called\<close>: as long as the interceptor was
  not called, no job is pending.
\<close>

definition quiet_until_called :: "world \<Rightarrow> bool" where
  "quiet_until_called w =
     (\<not> called (interceptor w) \<longrightarrow> nextTickQueue w = [] \<and> microtaskQueue w = [])"

subsection \<open>Examples\<close>

text \<open>
  A runtime with the functions and the regular expression of the examples:
  function 0 is \<^verbatim>\<open>() => 1\<close>,
  function 1 is \<^verbatim>\<open>function () { return this.calledWith.args.join(',') }\<close> (on
  arguments that are strings),
  function 2 is \<^verbatim>\<open>() => { throw 'boom' }\<close>,
  function 3 is \<^verbatim>\<open>function (command) { return command === 'ls' && !this.called }\<close>,
  function 4 is \<^verbatim>\<open>async () => 2\<close>, whose promise (with function 5 for \<^verbatim>\<open>then\<close>) is
  fulfilled with 2 a turn later,
  function 6 is \<^verbatim>\<open>() => Promise.reject('boom')\<close>, whose promise (with function 7 for
  \<^verbatim>\<open>then\<close>) is rejected,
  every other function returns undefined, and as a \<^verbatim>\<open>then\<close> method never calls back;
  every regular expression is \<^verbatim>\<open>/^ls/\<close>.
\<close>

definition example_function :: "nat \<Rightarrow> API \<Rightarrow> jsval list \<Rightarrow> setter list \<times> outcome" where
  "example_function f this xs =
     (if f = 0 then ([], Return (JNum 1))
      else if f = 1 then
        (case map_of (props (api_calledWith this)) ''args'' of
           Some (JArr ys) \<Rightarrow> ([], Return (JStr (join '','' (map (\<lambda>y. case y of JStr s \<Rightarrow> s | _ \<Rightarrow> []) ys))))
         | _ \<Rightarrow> ([], Throw (JStr ''TypeError'')))
      else if f = 2 then ([], Throw (JStr ''boom''))
      else if f = 3 then
        ([], Return (JBool (take 1 xs = [JStr ''ls''] \<and> \<not> api_called this)))
      else if f = 4 then ([], Return (JObj [(''then'', JFun 5)]))
      else if f = 6 then ([], Return (JObj [(''then'', JFun 7)]))
      else ([], Return JUndefined))"

definition example_settles :: "nat \<Rightarrow> jsval \<Rightarrow> settlement" where
  "example_settles f v =
     (if f = 5 then Fulfilled 1 (JNum 2)
      else if f = 7 then Rejected 0 (JStr ''boom'')
      else Never)"

definition example_runtime :: runtime where
  "example_runtime =
     \<lparr>invoke = example_function,
      regexp_test = (\<lambda>r s. take 2 s = ''ls''),
      function_text = (\<lambda>f. ''function () { }''),
      regexp_text = (\<lambda>r. ''/^ls/''),
      settles = example_settles\<rparr>"


section \<open>What the user's functions can change\<close>

lemma same_but_mocks_refl [simp]: "same_but_mocks I I"
  by (simp add: same_but_mocks_def)

lemma same_but_mocks_trans: "same_but_mocks I J \<Longrightarrow> same_but_mocks J K \<Longrightarrow> same_but_mocks I K"
  unfolding same_but_mocks_def by (metis interceptor.update_convs(1) interceptor.surjective)

lemma same_but_mocks_fields:
  "same_but_mocks I J \<Longrightarrow>
     command J = command I \<and> args J = args I \<and> options J = options I \<and>
     called J = called I \<and> calledWith J = calledWith I \<and> child J = child I"
  unfolding same_but_mocks_def by (metis interceptor.select_convs(2-7) interceptor.surjective interceptor.update_convs(1))

lemma same_but_mocks_api: "same_but_mocks I J \<Longrightarrow> api J = api I"
  by (simp add: api_def same_but_mocks_fields)

lemma apply_setter_frame: "same_but_mocks I (apply_setter I s)"
  by (cases s) (simp_all add: same_but_mocks_def set_exitCode_def set_signal_def set_stdout_def set_stderr_def)

lemma foldl_apply_setter_frame: "same_but_mocks I (foldl apply_setter I ss)"
proof (induction ss arbitrary: I)
  case Nil show ?case by simp
next
  case (Cons s ss)
  have "same_but_mocks I (apply_setter I s)" by (rule apply_setter_frame)
  moreover have "same_but_mocks (apply_setter I s) (foldl apply_setter (apply_setter I s) ss)" by (rule Cons.IH)
  ultimately show ?case by (simp add: same_but_mocks_trans)
qed

lemma call_function_frame: "same_but_mocks I (snd (call_function rt I f xs))"
  by (simp add: call_function_def foldl_apply_setter_frame split: prod.splits outcome.splits)

lemma call_function_fst: "same_but_mocks I J \<Longrightarrow> fst (call_function rt J f xs) = fst (call_function rt I f xs)"
  by (simp add: call_function_def same_but_mocks_api split: prod.splits outcome.splits)



lemma deferred_frame: "same_but_mocks I (snd (deferred rt I m))"
  by (cases m) (simp_all add: deferred_def call_function_frame)

lemma predicate_frame: "same_but_mocks I (snd (predicate rt I f xs))"
  using call_function_frame [of I rt f xs]
  by (auto simp: predicate_def split: prod.splits sum.splits)

lemma predicate_fst:
  "same_but_mocks I J \<Longrightarrow> fst (predicate rt J f xs) = fst (predicate rt I f xs)"
  using call_function_fst [of I J rt f xs]
  by (auto simp: predicate_def split: prod.splits sum.splits)


lemma match_command_frame: "same_but_mocks I (snd (match_command rt I c a opts))"
  by (cases "command I") (simp_all add: match_command_def predicate_frame)

lemma match_args_frame: "same_but_mocks I (snd (match_args rt I a))"
  by (cases "args I") (simp_all add: match_args_def predicate_frame)



lemma match_args_fst:
  "same_but_mocks I J \<Longrightarrow> fst (match_args rt J a) = fst (match_args rt I a)"
  by (cases "args I") (simp_all add: match_args_def same_but_mocks_fields predicate_fst)

lemma match_options_fst:
  "same_but_mocks I J \<Longrightarrow> fst (match_options rt J opts) = fst (match_options rt I opts)"
  by (cases "options I") (simp_all add: match_options_def same_but_mocks_fields predicate_fst)


text \<open>
  Since the criteria do not read the mocks, a call that is not refused at once passes
  \<open>match\<close> exactly when it passes each of the three criteria.
\<close>

lemma match_True_iff:
  assumes "\<not> called I"
  shows "fst (match rt I c a opts) = Inr True \<longleftrightarrow>
           fst (match_command rt I c (default_to (JArr []) a) (default_to (JObj []) opts)) = Inr True \<and>
           fst (match_args rt I (default_to (JArr []) a)) = Inr True \<and>
           fst (match_options rt I (default_to (JObj []) opts)) = Inr True"
proof -
  let ?a = "default_to (JArr []) a" and ?o = "default_to (JObj []) opts"
  obtain r1 I1 where m1: "match_command rt I c ?a ?o = (r1, I1)" by fastforce
  obtain r2 I2 where m2: "match_args rt I1 ?a = (r2, I2)" by fastforce
  obtain r3 I3 where m3: "match_options rt I2 ?o = (r3, I3)" by fastforce
  have f1: "same_but_mocks I I1" using match_command_frame [of I rt c ?a ?o] m1 by simp
  have "same_but_mocks I1 I2" using match_args_frame [of I1 rt ?a] m2 by simp
  with f1 have f2: "same_but_mocks I I2" by (rule same_but_mocks_trans)
  have e2: "fst (match_args rt I ?a) = r2" using match_args_fst [OF f1, of rt ?a] m2 by simp
  have e3: "fst (match_options rt I ?o) = r3" using match_options_fst [OF f2, of rt ?o] m3 by simp
  show ?thesis using assms m1 m2 m3 e2 e3
    by (auto simp: match_def Let_def split: sum.splits bool.splits)
qed

lemma run_called: "called (interceptor (snd (run w c a opts)))"
  by (simp add: run_def Let_def)

lemma deferred_fields:
  "same_but_mocks I (snd (get_exitCode rt I))" "same_but_mocks I (snd (get_signal rt I))"
  "same_but_mocks I (snd (get_stdout rt I))" "same_but_mocks I (snd (get_stderr rt I))"
  by (simp_all add: get_exitCode_def get_signal_def get_stdout_def get_stderr_def deferred_frame)

lemma resolve_frame: "same_but_mocks I (snd (resolve rt I))"
proof -
  obtain r1 I1 where g1: "get_exitCode rt I = (r1, I1)" by fastforce
  obtain r2 I2 where g2: "get_signal rt I1 = (r2, I2)" by fastforce
  obtain r3 I3 where g3: "get_stdout rt I2 = (r3, I3)" by fastforce
  obtain r4 I4 where g4: "get_stderr rt I3 = (r4, I4)" by fastforce
  have f1: "same_but_mocks I I1" using deferred_fields(1) [of I rt] g1 by simp
  have "same_but_mocks I1 I2" using deferred_fields(2) [of I1 rt] g2 by simp
  with f1 have f2: "same_but_mocks I I2" by (rule same_but_mocks_trans)
  have "same_but_mocks I2 I3" using deferred_fields(3) [of I2 rt] g3 by simp
  with f2 have f3: "same_but_mocks I I3" by (rule same_but_mocks_trans)
  have "same_but_mocks I3 I4" using deferred_fields(4) [of I3 rt] g4 by simp
  with f3 have f4: "same_but_mocks I I4" by (rule same_but_mocks_trans)
  show ?thesis using g1 g2 g3 g4 f1 f2 f3 f4
    by (auto simp: resolve_def split: sum.splits)
qed

lemma exec_frame: "same_but_mocks (interceptor w) (interceptor (exec rt j w))"
proof (cases j)
  case Resolution
  then show ?thesis using resolve_frame [of "interceptor w" rt]
    by (auto split: prod.splits sum.splits option.splits)
next
  case (Continuation d r)
  have "interceptor (exec rt (Continuation d r) w) = interceptor w"
  proof (cases d)
    case 0
    then show ?thesis by (cases r) (auto split: option.splits prod.splits)
  qed simp
  with Continuation show ?thesis by simp
qed

lemma step_frame: "same_but_mocks (interceptor w) (interceptor (step rt w))"
proof (cases "nextTickQueue w")
  case (Cons j js)
  then show ?thesis
    using exec_frame [of "w\<lparr>nextTickQueue := js, turn := Suc (turn w)\<rparr>" rt j]
    by (simp add: step_def)
next
  case Nil
  show ?thesis
  proof (cases "microtaskQueue w")
    case (Cons j js)
    then show ?thesis
      using Nil exec_frame [of "w\<lparr>microtaskQueue := js, turn := Suc (turn w)\<rparr>" rt j]
      by (simp add: step_def)
  qed (simp add: step_def Nil)
qed

lemma drain_frame: "same_but_mocks (interceptor w) (interceptor (drain rt w))"
proof (induction rt w rule: drain.induct)
  case (1 rt w)
  show ?case
  proof (cases "nextTickQueue w = [] \<and> microtaskQueue w = []")
    case True
    then show ?thesis by (simp add: drain.simps)
  next
    case False
    have "same_but_mocks (interceptor (step rt w)) (interceptor (drain rt (step rt w)))"
      using False by (rule "1.IH")
    with step_frame [of w rt]
    have "same_but_mocks (interceptor w) (interceptor (drain rt (step rt w)))"
      by (rule same_but_mocks_trans)
    then show ?thesis using False by (subst drain.simps) simp
  qed
qed

lemma quiet_new_world: "quiet_until_called (new_world (Interceptor c a opts))"
  by (simp add: quiet_until_called_def new_world_def)

lemma quiet_interceptor:
  "quiet_until_called w \<Longrightarrow> same_but_mocks (interceptor w) I \<Longrightarrow>
   quiet_until_called (w\<lparr>interceptor := I\<rparr>)"
  using same_but_mocks_fields [of "interceptor w" I] by (simp add: quiet_until_called_def)

lemma quiet_run: "quiet_until_called (snd (run w c a opts))"
  by (simp add: quiet_until_called_def run_called)

lemma quiet_step: "quiet_until_called w \<Longrightarrow> quiet_until_called (step rt w)"
proof (cases "called (interceptor w)")
  case True
  then show ?thesis
    using same_but_mocks_fields [OF step_frame [of w rt]] by (simp add: quiet_until_called_def)
next
  case False
  assume "quiet_until_called w"
  with False have "step rt w = w" by (simp add: quiet_until_called_def step_def)
  with \<open>quiet_until_called w\<close> show ?thesis by simp
qed

section \<open>An interceptor matches once\<close>

text \<open>
  C1. An interceptor whose \<open>called\<close> flag is set refuses every call, whatever its
  command, arguments and options; \<open>match\<close> returns false and leaves it as it is. After
  \<open>run\<close> the flag is set, so every later \<open>match\<close> returns false: with the triple that
  was run, with any other triple, and still after the event loop has run the resolution.
\<close>

theorem called_never_matches:
  "(called I \<longrightarrow> match rt I c a opts = (Inr False, I)) \<and>
   fst (match rt (interceptor (snd (run w c a opts))) c a opts) = Inr False \<and>
   fst (match rt (interceptor (snd (run w c a opts))) c' a' opts') = Inr False \<and>
   fst (match rt (interceptor (drain rt (snd (run w c a opts)))) c' a' opts') = Inr False"
proof -
  have 1: "called I \<Longrightarrow> match rt I c a opts = (Inr False, I)" for I c a opts
    by (simp add: match_def Let_def)
  have 2: "called (interceptor (snd (run w c a opts)))" by (rule run_called)
  have "called (interceptor (drain rt (snd (run w c a opts))))"
    using same_but_mocks_fields [OF drain_frame [of "snd (run w c a opts)" rt]] 2 by simp
  with 1 2 show ?thesis by simp
qed

theorem called_never_matches_witness:
  "called (interceptor (snd (run (new_world (Interceptor (JStr ''ls'') JUndefined JUndefined))
      (JStr ''ls'') (JArr []) (JObj [])))) \<and>
   match example_runtime
     (interceptor (snd (run (new_world (Interceptor (JStr ''ls'') JUndefined JUndefined))
        (JStr ''ls'') (JArr []) (JObj []))))
     (JStr ''ls'') (JArr []) (JObj []) =
   (Inr False,
    interceptor (snd (run (new_world (Interceptor (JStr ''ls'') JUndefined JUndefined))
      (JStr ''ls'') (JArr []) (JObj []))))"
  using called_never_matches
    [of "interceptor (snd (run (new_world (Interceptor (JStr ''ls'') JUndefined JUndefined))
           (JStr ''ls'') (JArr []) (JObj [])))"
        example_runtime "JStr ''ls''" "JArr []" "JObj []"]
  by (simp add: run_called)

section \<open>The command criterion\<close>

lemma predicate_True_iff:
  "fst (predicate rt I f xs) = Inr True \<longleftrightarrow>
     (\<exists>v. snd (invoke rt f (api I) xs) = Return v \<and> truthy v)"
  by (auto simp: predicate_def call_function_def split: prod.splits sum.splits outcome.splits)

text \<open>
  C4. For an interceptor that was not called yet and every call: \<open>match\<close> returns true
  exactly when the call passes the command criterion and the two others. The command
  criterion is, for a specification that is a literal string, that the incoming command is
  that very string; for a regular expression, that its \<open>test\<close> is true of the incoming
  command; for a function, that the function, called on the facade with the command, the
  arguments and the options (the defaults standing for an undefined one), returns a truthy
  value.
\<close>

theorem command_criterion:
  assumes "\<not> called I"
  shows
    "(command I = JStr s \<longrightarrow>
        (fst (match rt I c a opts) = Inr True \<longleftrightarrow>
           c = JStr s \<and>
           fst (match_args rt I (default_to (JArr []) a)) = Inr True \<and>
           fst (match_options rt I (default_to (JObj []) opts)) = Inr True)) \<and>
     (command I = JRegExp r \<longrightarrow>
        (fst (match rt I c a opts) = Inr True \<longleftrightarrow>
           regexp_test rt r (to_string rt c) \<and>
           fst (match_args rt I (default_to (JArr []) a)) = Inr True \<and>
           fst (match_options rt I (default_to (JObj []) opts)) = Inr True)) \<and>
     (command I = JFun f \<longrightarrow>
        (fst (match rt I c a opts) = Inr True \<longleftrightarrow>
           (\<exists>v. snd (invoke rt f (api I) [c, default_to (JArr []) a, default_to (JObj []) opts])
                  = Return v \<and> truthy v) \<and>
           fst (match_args rt I (default_to (JArr []) a)) = Inr True \<and>
           fst (match_options rt I (default_to (JObj []) opts)) = Inr True))"
proof -
  let ?a = "default_to (JArr []) a" and ?o = "default_to (JObj []) opts"
  have lit: "command I = JStr s \<Longrightarrow> fst (match_command rt I c ?a ?o) = Inr True \<longleftrightarrow> c = JStr s"
    by (cases c) (simp_all add: match_command_def)
  have re: "command I = JRegExp r \<Longrightarrow>
      fst (match_command rt I c ?a ?o) = Inr True \<longleftrightarrow> regexp_test rt r (to_string rt c)"
    by (simp add: match_command_def)
  have fn: "command I = JFun f \<Longrightarrow>
      fst (match_command rt I c ?a ?o) = Inr True \<longleftrightarrow>
        (\<exists>v. snd (invoke rt f (api I) [c, ?a, ?o]) = Return v \<and> truthy v)"
    by (simp add: match_command_def predicate_True_iff)
  show ?thesis
    unfolding match_True_iff [OF assms] using lit re fn by blast
qed

theorem command_criterion_witness:
  "\<not> called (Interceptor (JStr ''ls'') JUndefined JUndefined) \<and>
   command (Interceptor (JStr ''ls'') JUndefined JUndefined) = JStr ''ls'' \<and>
   fst (match example_runtime (Interceptor (JStr ''ls'') JUndefined JUndefined)
          (JStr ''ls'') (JArr []) (JObj [])) = Inr True \<and>
   fst (match example_runtime (Interceptor (JStr ''ls'') JUndefined JUndefined)
          (JStr ''lsof'') (JArr []) (JObj [])) \<noteq> Inr True \<and>
   \<not> called (Interceptor (JRegExp 0) JUndefined JUndefined) \<and>
   command (Interceptor (JRegExp 0) JUndefined JUndefined) = JRegExp 0 \<and>
   fst (match example_runtime (Interceptor (JRegExp 0) JUndefined JUndefined)
          (JStr ''lsof'') (JArr []) (JObj [])) = Inr True \<and>
   \<not> called (Interceptor (JFun 3) JUndefined JUndefined) \<and>
   command (Interceptor (JFun 3) JUndefined JUndefined) = JFun 3 \<and>
   fst (match example_runtime (Interceptor (JFun 3) JUndefined JUndefined)
          (JStr ''ls'') (JArr []) (JObj [])) = Inr True"
  using
    command_criterion [of "Interceptor (JStr ''ls'') JUndefined JUndefined" "''ls''"
      example_runtime "JStr ''ls''" "JArr []" "JObj []" 0 0]
    command_criterion [of "Interceptor (JStr ''ls'') JUndefined JUndefined" "''ls''"
      example_runtime "JStr ''lsof''" "JArr []" "JObj []" 0 0]
    command_criterion [of "Interceptor (JRegExp 0) JUndefined JUndefined" "''ls''"
      example_runtime "JStr ''lsof''" "JArr []" "JObj []" 0 0]
    command_criterion [of "Interceptor (JFun 3) JUndefined JUndefined" "''ls''"
      example_runtime "JStr ''ls''" "JArr []" "JObj []" 0 3]
  by (simp add: Interceptor_def match_args_def match_options_def default_to_def
      example_runtime_def example_function_def api_def)

section \<open>Matching does not consume\<close>




section \<open>calledWith\<close>

text \<open>
  C9. The \<open>calledWith\<close> getter of the facade returns undefined as long as \<open>called\<close> is
  false. After \<open>run\<close> it returns the object holding the command, the arguments and the
  options that \<open>run\<close> was given; it is recorded in the turn of the call, while the
  resolution is still waiting in the queue of \<open>process.nextTick\<close>, and it stays the same
  when the event loop has run the resolution.
\<close>

theorem calledWith_recorded:
  "(\<not> called I \<longrightarrow> api_calledWith (api I) = JUndefined) \<and>
   api_calledWith (api (interceptor (snd (run w c a opts)))) =
     JObj [(''command'', c), (''args'', a), (''options'', opts)] \<and>
   nextTickQueue (snd (run w c a opts)) = nextTickQueue w @ [Resolution] \<and>
   microtaskQueue (snd (run w c a opts)) = microtaskQueue w \<and>
   turn (snd (run w c a opts)) = turn w \<and>
   api_calledWith (api (interceptor (drain rt (snd (run w c a opts))))) =
     JObj [(''command'', c), (''args'', a), (''options'', opts)]"
proof -
  let ?w = "snd (run w c a opts)"
  have r: "called (interceptor ?w)"
    "calledWith (interceptor ?w) = JObj [(''command'', c), (''args'', a), (''options'', opts)]"
    by (simp_all add: run_def Let_def)
  have d: "called (interceptor (drain rt ?w)) = called (interceptor ?w)"
    "calledWith (interceptor (drain rt ?w)) = calledWith (interceptor ?w)"
    using same_but_mocks_fields [OF drain_frame [of ?w rt]] by simp_all
  have q: "nextTickQueue ?w = nextTickQueue w @ [Resolution]" "microtaskQueue ?w = microtaskQueue w"
    "turn ?w = turn w"
    by (simp_all add: run_def Let_def)
  show ?thesis using r d q by (simp add: api_def)
qed

theorem calledWith_recorded_witness:
  "\<not> called (Interceptor (JStr ''ls'') JUndefined JUndefined) \<and>
   api_calledWith (api (Interceptor (JStr ''ls'') JUndefined JUndefined)) = JUndefined"
  using calledWith_recorded [of "Interceptor (JStr ''ls'') JUndefined JUndefined"]
  by (simp add: Interceptor_def)

section \<open>The args criterion\<close>

lemma join_Cons: "join sep (x # xs) = (if xs = [] then x else x @ sep @ join sep xs)"
  by (cases xs) simp_all

lemma first_separator:
  "c \<notin> set x \<Longrightarrow> c \<notin> set y \<Longrightarrow> x @ c # u = y @ c # v \<Longrightarrow> x = y \<and> u = v"
proof (induction x arbitrary: y)
  case Nil
  then show ?case by (cases y) auto
next
  case (Cons x1 x')
  then show ?case by (cases y) auto
qed

lemma join_comma_inj_Cons:
  "comma_free (x # xs) \<Longrightarrow> comma_free (y # ys) \<Longrightarrow>
   join '','' (x # xs) = join '','' (y # ys) \<Longrightarrow> x # xs = y # ys"
proof (induction xs arbitrary: x y ys)
  case Nil
  show ?case
  proof (cases ys)
    case Nil
    with Nil.prems show ?thesis by simp
  next
    case (Cons y' ys')
    with Nil.prems have "x = y @ '','' @ join '','' (y' # ys')" by simp
    then have "CHR '','' \<in> set x" by simp
    with Nil.prems(1) show ?thesis by (simp add: comma_free_def)
  qed
next
  case (Cons x' xs')
  show ?case
  proof (cases ys)
    case Nil
    with Cons.prems have "y = x @ '','' @ join '','' (x' # xs')" by simp
    then have "CHR '','' \<in> set y" by simp
    with Cons.prems(2) show ?thesis by (simp add: comma_free_def)
  next
    case (Cons y' ys')
    have nx: "CHR '','' \<notin> set x" and ny: "CHR '','' \<notin> set y"
      using Cons.prems(1,2) by (simp_all add: comma_free_def)
    have "x @ CHR '','' # join '','' (x' # xs') = y @ CHR '','' # join '','' (y' # ys')"
      using Cons.prems(3) Cons by simp
    then have e: "x = y" "join '','' (x' # xs') = join '','' (y' # ys')"
      using first_separator [OF nx ny] by simp_all
    have "x' # xs' = y' # ys'"
      using Cons.prems(1,2) Cons e(2) by (intro Cons.IH) (simp_all add: comma_free_def)
    with e(1) Cons show ?thesis by simp
  qed
qed

lemma join_comma_inj:
  assumes "comma_free xs" "comma_free ys"
    and "\<not> (xs = [] \<and> ys = [[]])" "\<not> (xs = [[]] \<and> ys = [])"
  shows "join '','' xs = join '','' ys \<longleftrightarrow> xs = ys"
proof
  assume e: "join '','' xs = join '','' ys"
  show "xs = ys"
  proof (cases xs)
    case Nil
    show ?thesis
    proof (cases ys)
      case (Cons y ys')
      with Nil e have "join '','' (y # ys') = []" by simp
      then have "y = [] \<and> ys' = []" by (cases ys') simp_all
      with Nil Cons assms(3) show ?thesis by simp
    qed (simp add: Nil)
  next
    case (Cons x xs')
    show ?thesis
    proof (cases ys)
      case Nil
      with Cons e have "join '','' (x # xs') = []" by simp
      then have "x = [] \<and> xs' = []" by (cases xs') simp_all
      with Nil Cons assms(4) show ?thesis by simp
    next
      case c2: (Cons y ys')
      show ?thesis using join_comma_inj_Cons [of x xs' y ys'] assms(1,2) e Cons c2 by simp
    qed
  qed
qed simp

lemma to_string_strings: "to_string rt (JArr (map JStr xs)) = join '','' xs"
  by (simp add: comp_def)

lemma match_args_literal:
  assumes "\<not> is_function (args I)"
  shows "fst (match_args rt I a') = Inr True \<longleftrightarrow>
           (truthy (args I) \<longrightarrow> \<not> nullish a' \<and> to_string rt (args I) = to_string rt a')"
  using assms
  by (cases "args I") (auto simp: match_args_def toString_def andThen_def)

text \<open>
  C5, as corrected. For an interceptor that was not called yet and whose args
  specification is not a function: when the specification is truthy, \<open>match\<close> returns true
  only if the string representations of the specification and of the incoming arguments
  are equal (both joined with commas); when it is undefined, the arguments are not looked
  at. On sequences of strings without a comma the comparison is that of the sequences,
  in order, value and length, except that the empty sequence and the sequence of one empty
  string have the same representation. So \<open>["a","b"]\<close> matches neither \<open>["b","a"]\<close> nor
  \<open>["a"]\<close>.
\<close>

theorem args_criterion:
  assumes "\<not> called I" and "\<not> is_function (args I)"
  shows
    "(truthy (args I) \<longrightarrow>
        (fst (match rt I c a opts) = Inr True \<longleftrightarrow>
           fst (match_command rt I c (default_to (JArr []) a) (default_to (JObj []) opts)) = Inr True \<and>
           \<not> nullish (default_to (JArr []) a) \<and>
           to_string rt (args I) = to_string rt (default_to (JArr []) a) \<and>
           fst (match_options rt I (default_to (JObj []) opts)) = Inr True)) \<and>
     (args I = JUndefined \<longrightarrow>
        (fst (match rt I c a opts) = Inr True \<longleftrightarrow>
           fst (match_command rt I c (default_to (JArr []) a) (default_to (JObj []) opts)) = Inr True \<and>
           fst (match_options rt I (default_to (JObj []) opts)) = Inr True)) \<and>
     (\<forall>xs ys. args I = JArr (map JStr xs) \<and> a = JArr (map JStr ys) \<and>
        comma_free xs \<and> comma_free ys \<and>
        \<not> (xs = [] \<and> ys = [[]]) \<and> \<not> (xs = [[]] \<and> ys = []) \<longrightarrow>
        (fst (match rt I c a opts) = Inr True \<longleftrightarrow>
           fst (match_command rt I c a (default_to (JObj []) opts)) = Inr True \<and>
           ys = xs \<and>
           fst (match_options rt I (default_to (JObj []) opts)) = Inr True)) \<and>
     (args I = JArr [JStr ''a'', JStr ''b''] \<longrightarrow>
        fst (match rt I c (JArr [JStr ''b'', JStr ''a'']) opts) \<noteq> Inr True \<and>
        fst (match rt I c (JArr [JStr ''a'']) opts) \<noteq> Inr True)"
proof -
  note m = match_True_iff [OF assms(1)] match_args_literal [OF assms(2)]
  have 1: "truthy (args I) \<longrightarrow>
        (fst (match rt I c a opts) = Inr True \<longleftrightarrow>
           fst (match_command rt I c (default_to (JArr []) a) (default_to (JObj []) opts)) = Inr True \<and>
           \<not> nullish (default_to (JArr []) a) \<and>
           to_string rt (args I) = to_string rt (default_to (JArr []) a) \<and>
           fst (match_options rt I (default_to (JObj []) opts)) = Inr True)"
    by (auto simp: m)
  have 2: "args I = JUndefined \<longrightarrow>
        (fst (match rt I c a opts) = Inr True \<longleftrightarrow>
           fst (match_command rt I c (default_to (JArr []) a) (default_to (JObj []) opts)) = Inr True \<and>
           fst (match_options rt I (default_to (JObj []) opts)) = Inr True)"
    by (auto simp: m)
  have 3: "fst (match rt I c a opts) = Inr True \<longleftrightarrow>
           fst (match_command rt I c a (default_to (JObj []) opts)) = Inr True \<and>
           ys = xs \<and>
           fst (match_options rt I (default_to (JObj []) opts)) = Inr True"
    if h: "args I = JArr (map JStr xs)" "a = JArr (map JStr ys)" "comma_free xs" "comma_free ys"
      "\<not> (xs = [] \<and> ys = [[]])" "\<not> (xs = [[]] \<and> ys = [])" for xs ys
  proof -
    have "join '','' xs = join '','' ys \<longleftrightarrow> xs = ys"
      using h(3-6) by (rule join_comma_inj)
    then show ?thesis
      unfolding m using h(1,2) by (auto simp: default_to_def to_string_strings simp del: to_string.simps)
  qed
  have 4: "args I = JArr [JStr ''a'', JStr ''b''] \<longrightarrow>
        fst (match rt I c (JArr [JStr ''b'', JStr ''a'']) opts) \<noteq> Inr True \<and>
        fst (match rt I c (JArr [JStr ''a'']) opts) \<noteq> Inr True"
    by (simp add: m default_to_def)
  show ?thesis using 1 2 3 4 by blast
qed

theorem args_criterion_witness:
  "\<not> called (Interceptor (JStr ''echo'') (JArr (map JStr [''a'', ''b''])) JUndefined) \<and>
   \<not> is_function (args (Interceptor (JStr ''echo'') (JArr (map JStr [''a'', ''b''])) JUndefined)) \<and>
   truthy (args (Interceptor (JStr ''echo'') (JArr (map JStr [''a'', ''b''])) JUndefined)) \<and>
   comma_free [''a'', ''b''] \<and> comma_free [''b'', ''a''] \<and> comma_free [''a''] \<and>
   fst (match example_runtime (Interceptor (JStr ''echo'') (JArr (map JStr [''a'', ''b''])) JUndefined)
     (JStr ''echo'') (JArr (map JStr [''a'', ''b''])) (JObj [])) = Inr True \<and>
   fst (match example_runtime (Interceptor (JStr ''echo'') (JArr (map JStr [''a'', ''b''])) JUndefined)
     (JStr ''echo'') (JArr (map JStr [''b'', ''a''])) (JObj [])) \<noteq> Inr True \<and>
   fst (match example_runtime (Interceptor (JStr ''echo'') (JArr (map JStr [''a'', ''b''])) JUndefined)
     (JStr ''echo'') (JArr (map JStr [''a''])) (JObj [])) \<noteq> Inr True \<and>
   \<not> called (Interceptor (JStr ''echo'') JUndefined JUndefined) \<and>
   \<not> is_function (args (Interceptor (JStr ''echo'') JUndefined JUndefined)) \<and>
   args (Interceptor (JStr ''echo'') JUndefined JUndefined) = JUndefined \<and>
   fst (match example_runtime (Interceptor (JStr ''echo'') JUndefined JUndefined)
     (JStr ''echo'') (JArr [JStr ''x'', JNum 3]) (JObj [])) = Inr True"
proof -
  let ?I = "Interceptor (JStr ''echo'') (JArr (map JStr [''a'', ''b''])) JUndefined"
  let ?J = "Interceptor (JStr ''echo'') JUndefined JUndefined"
  have h: "\<not> called ?I" "\<not> is_function (args ?I)" "\<not> called ?J" "\<not> is_function (args ?J)"
    by (simp_all add: Interceptor_def)
  have cf: "comma_free [''a'', ''b'']" "comma_free [''b'', ''a'']" "comma_free [''a'']"
    by (simp_all add: comma_free_def)
  have s: "args ?I = JArr (map JStr [''a'', ''b''])" "truthy (args ?I)" "args ?J = JUndefined"
    "command ?I = JStr ''echo''" "command ?J = JStr ''echo''"
    "options ?I = JUndefined" "options ?J = JUndefined"
    by (simp_all add: Interceptor_def)
  note t = args_criterion [OF h(1,2), of example_runtime "JStr ''echo''" _ "JObj []"]
  note u = args_criterion [OF h(3,4), of example_runtime "JStr ''echo''" "JArr [JStr ''x'', JNum 3]" "JObj []"]
  have 1: "fst (match example_runtime ?I (JStr ''echo'') (JArr (map JStr [''a'', ''b''])) (JObj [])) = Inr True"
    using t [of "JArr (map JStr [''a'', ''b''])"] s cf
    by (simp add: match_command_def match_options_def default_to_def)
  have 2: "fst (match example_runtime ?I (JStr ''echo'') (JArr (map JStr [''b'', ''a''])) (JObj [])) \<noteq> Inr True"
    using t [of "JArr (map JStr [''b'', ''a''])"] s cf
    by (simp add: match_command_def match_options_def default_to_def)
  have 3: "fst (match example_runtime ?I (JStr ''echo'') (JArr (map JStr [''a''])) (JObj [])) \<noteq> Inr True"
    using t [of "JArr (map JStr [''a''])"] s cf
    by (simp add: match_command_def match_options_def default_to_def)
  have 4: "fst (match example_runtime ?J (JStr ''echo'') (JArr [JStr ''x'', JNum 3]) (JObj [])) = Inr True"
    using u s by (simp add: match_command_def match_options_def default_to_def)
  show ?thesis using h cf s(2,3) 1 2 3 4 by simp
qed

text \<open>
  The comparison is not sensitive to length or value in general: the specification
  \<open>["a,b"]\<close>, of one string, matches the incoming \<open>["a","b"]\<close>, of two.
\<close>

theorem args_length_counterexample:
  "fst (match example_runtime (Interceptor (JStr ''echo'') (JArr [JStr ''a,b'']) JUndefined)
     (JStr ''echo'') (JArr [JStr ''a'', JStr ''b'']) (JObj [])) = Inr True \<and>
   length [JStr ''a,b''] \<noteq> length [JStr ''a'', JStr ''b''] \<and>
   \<not> is_function (args (Interceptor (JStr ''echo'') (JArr [JStr ''a,b'']) JUndefined))"
  by (simp add: match_def match_command_def match_args_def match_options_def Interceptor_def
      default_to_def toString_def andThen_def)

section \<open>The options criterion\<close>

lemma compare_attrs_Cons:
  "\<not> nullish d \<Longrightarrow> compare_attrs d c (k # ks) =
     (if map_of (props d) k = None then compare_attrs d c ks
      else case get c k of
             Inl e \<Rightarrow> Inl e
           | Inr x \<Rightarrow> if stringify (property d k) \<noteq> stringify x then Inr False
                     else compare_attrs d c ks)"
  by (cases "map_of (props d) k") (simp_all add: hasOwnProperty_def get_def)

lemma compare_attrs_result:
  assumes "\<not> nullish d" "\<not> nullish c"
  shows "compare_attrs d c ks =
    Inr (\<forall>k \<in> set ks. map_of (props d) k \<noteq> None \<longrightarrow>
           stringify (property d k) = stringify (property c k))"
  using assms by (induction ks) (auto simp: compare_attrs_Cons get_def simp del: compare_attrs.simps(2))

lemma compare_env_result:
  assumes "\<not> nullish d" "\<not> nullish c" "\<not> nullish (property d ''env'')"
    "\<not> nullish (property c ''env'')"
  shows "compare_env d c ks =
    Inr (\<forall>k \<in> set ks. strict_eq (property (property d ''env'') k) (property (property c ''env'') k))"
  using assms by (induction ks) (auto simp: get_def andThen_def)

lemma compare_env_True:
  "compare_env d c ks = Inr True \<Longrightarrow>
     \<forall>k \<in> set ks. strict_eq (property (property d ''env'') k) (property (property c ''env'') k)"
  by (induction ks) (auto simp: get_def andThen_def split: if_splits)

lemma compareOptions_True_iff:
  assumes "\<not> nullish d" "\<not> nullish c"
  shows "compareOptions d c = Inr True \<longleftrightarrow>
     (\<forall>k \<in> set serializable. map_of (props d) k \<noteq> None \<longrightarrow>
           stringify (property d k) = stringify (property c k)) \<and>
     (map_of (props d) ''env'' \<noteq> None \<longrightarrow>
        map_of (props c) ''env'' \<noteq> None \<and>
        andThen (keys (property d ''env'')) (compare_env d c) = Inr True)"
  using assms
  by (auto simp: compareOptions_def compare_attrs_result hasOwnProperty_def get_def andThen_def
      split: sum.splits bool.splits)




lemma match_options_literal:
  assumes "\<not> is_function (options I)"
  shows "fst (match_options rt I opts') =
     (if truthy (options I) then compareOptions (options I) opts' else Inr True)"
  using assms by (cases "options I") (simp_all add: match_options_def)




section \<open>The env criterion\<close>

lemma env_spec_truthy:
  assumes "map_of (props v) k = Some x"
  shows "truthy v \<and> \<not> is_function v \<and> \<not> nullish v"
  using assms by (cases v) auto

text \<open>
  C6. For an interceptor that was not called yet and whose options specification has an
  \<open>env\<close> property, and an incoming options object: \<open>match\<close> returns true only if the
  incoming options have an \<open>env\<close> of their own and every key of the specification's
  \<open>env\<close> has a strictly equal value in the incoming \<open>env\<close>. When both are objects,
  this, the comparison of the serializable options and the two other criteria are all that
  is asked: the keys of the incoming \<open>env\<close> that the specification does not have are
  not read. So \<open>{env: {FOO: "1"}}\<close> matches a call whose \<open>env\<close> has \<open>FOO: "1"\<close>
  beside other keys, and does not match when \<open>FOO\<close> is missing or different, or when
  there is no \<open>env\<close>.
\<close>

theorem env_criterion:
  assumes "\<not> called I" and "map_of (props (options I)) ''env'' = Some denv"
    and "\<not> nullish (default_to (JObj []) opts)"
  shows
    "(fst (match rt I c a opts) = Inr True \<longrightarrow>
        (\<exists>cenv. map_of (props (default_to (JObj []) opts)) ''env'' = Some cenv \<and>
           (\<forall>k \<in> set (map fst (props denv)). strict_eq (property denv k) (property cenv k)))) \<and>
     (\<forall>cenv. \<not> nullish denv \<and> map_of (props (default_to (JObj []) opts)) ''env'' = Some cenv \<and>
        \<not> nullish cenv \<longrightarrow>
        (fst (match rt I c a opts) = Inr True \<longleftrightarrow>
           fst (match_command rt I c (default_to (JArr []) a) (default_to (JObj []) opts)) = Inr True \<and>
           fst (match_args rt I (default_to (JArr []) a)) = Inr True \<and>
           (\<forall>k \<in> set serializable. map_of (props (options I)) k \<noteq> None \<longrightarrow>
              stringify (property (options I) k) = stringify (property (default_to (JObj []) opts) k)) \<and>
           (\<forall>k \<in> set (map fst (props denv)). strict_eq (property denv k) (property cenv k)))) \<and>
     (options I = JObj [(''env'', JObj [(''FOO'', JStr ''1'')])] \<longrightarrow>
        (fst (match rt I c a (JObj [(''env'', JObj [(''FOO'', JStr ''1''), (''BAR'', JStr ''2'')])])) = Inr True \<longleftrightarrow>
           fst (match_command rt I c (default_to (JArr []) a)
                  (JObj [(''env'', JObj [(''FOO'', JStr ''1''), (''BAR'', JStr ''2'')])])) = Inr True \<and>
           fst (match_args rt I (default_to (JArr []) a)) = Inr True) \<and>
        fst (match rt I c a (JObj [(''env'', JObj [(''BAR'', JStr ''2'')])])) \<noteq> Inr True \<and>
        fst (match rt I c a (JObj [(''env'', JObj [(''FOO'', JStr ''2'')])])) \<noteq> Inr True \<and>
        fst (match rt I c a (JObj [(''cwd'', JStr ''/tmp'')])) \<noteq> Inr True)"
proof -
  let ?o = "default_to (JObj []) opts"
  note t = env_spec_truthy [OF assms(2)]
  have pd: "property (options I) ''env'' = denv" using assms(2) by (simp add: property_def)
  have co: "fst (match_options rt I x) = Inr True \<longleftrightarrow> compareOptions (options I) x = Inr True" for x
    using t by (simp add: match_options_literal)
  have 1: "\<exists>cenv. map_of (props ?o) ''env'' = Some cenv \<and>
           (\<forall>k \<in> set (map fst (props denv)). strict_eq (property denv k) (property cenv k))"
    if m: "fst (match rt I c a opts) = Inr True"
  proof -
    have c: "compareOptions (options I) ?o = Inr True"
      using m by (simp add: match_True_iff [OF assms(1)] co)
    then obtain cenv where ce: "map_of (props ?o) ''env'' = Some cenv"
      and k: "andThen (keys denv) (compare_env (options I) ?o) = Inr True"
      using compareOptions_True_iff [of "options I" ?o] t assms(2,3) pd by auto
    from k have nn: "\<not> nullish denv" by (auto simp: keys_def andThen_def split: if_splits)
    with k have "compare_env (options I) ?o (map fst (props denv)) = Inr True"
      by (simp add: keys_def andThen_def)
    from compare_env_True [OF this] pd ce
    have "\<forall>k \<in> set (map fst (props denv)). strict_eq (property denv k) (property cenv k)"
      by (simp add: property_def)
    with ce show ?thesis by blast
  qed
  have 2: "fst (match rt I c a opts) = Inr True \<longleftrightarrow>
           fst (match_command rt I c (default_to (JArr []) a) ?o) = Inr True \<and>
           fst (match_args rt I (default_to (JArr []) a)) = Inr True \<and>
           (\<forall>k \<in> set serializable. map_of (props (options I)) k \<noteq> None \<longrightarrow>
              stringify (property (options I) k) = stringify (property ?o k)) \<and>
           (\<forall>k \<in> set (map fst (props denv)). strict_eq (property denv k) (property cenv k))"
    if h: "\<not> nullish denv" "map_of (props ?o) ''env'' = Some cenv" "\<not> nullish cenv" for cenv
  proof -
    have pc: "property ?o ''env'' = cenv" using h(2) by (simp add: property_def)
    have "compare_env (options I) ?o ks =
        Inr (\<forall>k \<in> set ks. strict_eq (property denv k) (property cenv k))" for ks
      using compare_env_result [of "options I" ?o ks] t assms(3) h(1,3) pd pc by simp
    then show ?thesis
      using compareOptions_True_iff [of "options I" ?o] t assms(2,3) h pd
      by (simp add: match_True_iff [OF assms(1)] co keys_def andThen_def)
  qed
  have 3: "options I = JObj [(''env'', JObj [(''FOO'', JStr ''1'')])] \<longrightarrow>
        (fst (match rt I c a (JObj [(''env'', JObj [(''FOO'', JStr ''1''), (''BAR'', JStr ''2'')])])) = Inr True \<longleftrightarrow>
           fst (match_command rt I c (default_to (JArr []) a)
                  (JObj [(''env'', JObj [(''FOO'', JStr ''1''), (''BAR'', JStr ''2'')])])) = Inr True \<and>
           fst (match_args rt I (default_to (JArr []) a)) = Inr True) \<and>
        fst (match rt I c a (JObj [(''env'', JObj [(''BAR'', JStr ''2'')])])) \<noteq> Inr True \<and>
        fst (match rt I c a (JObj [(''env'', JObj [(''FOO'', JStr ''2'')])])) \<noteq> Inr True \<and>
        fst (match rt I c a (JObj [(''cwd'', JStr ''/tmp'')])) \<noteq> Inr True"
    by (simp add: match_True_iff [OF assms(1)] co compareOptions_True_iff default_to_def
        serializable_def property_def keys_def andThen_def get_def)
  show ?thesis using 1 2 3 by blast
qed

theorem env_criterion_witness:
  "\<not> called (Interceptor (JStr ''ls'') JUndefined (JObj [(''env'', JObj [(''FOO'', JStr ''1'')])])) \<and>
   map_of (props (options (Interceptor (JStr ''ls'') JUndefined
     (JObj [(''env'', JObj [(''FOO'', JStr ''1'')])])))) ''env'' = Some (JObj [(''FOO'', JStr ''1'')]) \<and>
   \<not> nullish (default_to (JObj [])
     (JObj [(''env'', JObj [(''FOO'', JStr ''1''), (''BAR'', JStr ''2'')])])) \<and>
   \<not> nullish (JObj [(''FOO'', JStr ''1'')]) \<and>
   map_of (props (default_to (JObj [])
     (JObj [(''env'', JObj [(''FOO'', JStr ''1''), (''BAR'', JStr ''2'')])]))) ''env'' =
     Some (JObj [(''FOO'', JStr ''1''), (''BAR'', JStr ''2'')]) \<and>
   \<not> nullish (JObj [(''FOO'', JStr ''1''), (''BAR'', JStr ''2'')]) \<and>
   fst (match example_runtime
     (Interceptor (JStr ''ls'') JUndefined (JObj [(''env'', JObj [(''FOO'', JStr ''1'')])]))
     (JStr ''ls'') (JArr []) (JObj [(''env'', JObj [(''FOO'', JStr ''1''), (''BAR'', JStr ''2'')])])) = Inr True \<and>
   fst (match example_runtime
     (Interceptor (JStr ''ls'') JUndefined (JObj [(''env'', JObj [(''FOO'', JStr ''1'')])]))
     (JStr ''ls'') (JArr []) (JObj [(''env'', JObj [(''BAR'', JStr ''2'')])])) \<noteq> Inr True \<and>
   fst (match example_runtime
     (Interceptor (JStr ''ls'') JUndefined (JObj [(''env'', JObj [(''FOO'', JStr ''1'')])]))
     (JStr ''ls'') (JArr []) (JObj [(''env'', JObj [(''FOO'', JStr ''2'')])])) \<noteq> Inr True"
proof -
  let ?I = "Interceptor (JStr ''ls'') JUndefined (JObj [(''env'', JObj [(''FOO'', JStr ''1'')])])"
  let ?opts = "JObj [(''env'', JObj [(''FOO'', JStr ''1''), (''BAR'', JStr ''2'')])]"
  have h: "\<not> called ?I" "map_of (props (options ?I)) ''env'' = Some (JObj [(''FOO'', JStr ''1'')])"
    "\<not> nullish (default_to (JObj []) ?opts)"
    by (simp_all add: Interceptor_def default_to_def)
  have s: "options ?I = JObj [(''env'', JObj [(''FOO'', JStr ''1'')])]" "command ?I = JStr ''ls''"
    "args ?I = JUndefined"
    "map_of (props (default_to (JObj []) ?opts)) ''env'' =
       Some (JObj [(''FOO'', JStr ''1''), (''BAR'', JStr ''2'')])"
    by (simp_all add: Interceptor_def default_to_def)
  show ?thesis
    using h s env_criterion [OF h, of example_runtime "JStr ''ls''" "JArr []"]
    by (simp add: match_command_def match_args_def default_to_def)
qed

section \<open>From run to the end of the resolution\<close>

lemma drain_done: "nextTickQueue w = [] \<Longrightarrow> microtaskQueue w = [] \<Longrightarrow> drain rt w = w"
  by (simp add: drain.simps)

lemma drain_step:
  "nextTickQueue w \<noteq> [] \<or> microtaskQueue w \<noteq> [] \<Longrightarrow> drain rt w = drain rt (step rt w)"
  by (subst drain.simps) auto

lemma run_handle:
  "fst (run w c a opts) = length (heap w)"
  "heap (snd (run w c a opts)) = heap w @ [spawned (turn w) a]"
  "heap (snd (run w c a opts)) ! length (heap w) = spawned (turn w) a"
  "child (interceptor (snd (run w c a opts))) = Some (length (heap w))"
  "turn (snd (run w c a opts)) = turn w"
  "nextTickQueue (snd (run w c a opts)) = nextTickQueue w @ [Resolution]"
  "microtaskQueue (snd (run w c a opts)) = microtaskQueue w"
  "rejections (snd (run w c a opts)) = rejections w"
  "mocks (interceptor (snd (run w c a opts))) = mocks (interceptor w)"
  by (simp_all add: run_def Let_def spawned_def emit_def)

text \<open>A continuation that has resumed leaves the queues as they are.\<close>

lemma exec_resumed:
  "nextTickQueue (exec rt (Continuation 0 r) w) = nextTickQueue w"
  "microtaskQueue (exec rt (Continuation 0 r) w) = microtaskQueue w"
  "interceptor (exec rt (Continuation 0 r) w) = interceptor w"
  by (cases r; auto split: option.splits prod.splits)+

text \<open>A lone continuation resumes after the turns it has to wait.\<close>

lemma drain_wait:
  assumes "nextTickQueue v = []" "microtaskQueue v = [Continuation d r]"
  shows "drain rt v =
    exec rt (Continuation 0 r) (v\<lparr>microtaskQueue := [], turn := Suc (turn v + d)\<rparr>)"
  using assms
proof (induction d arbitrary: v)
  case 0
  have "drain rt v = drain rt (step rt v)"
    by (rule drain_step) (simp add: "0.prems")
  also have "step rt v = exec rt (Continuation 0 r) (v\<lparr>microtaskQueue := [], turn := Suc (turn v)\<rparr>)"
    using "0.prems" by (simp add: step_def)
  also have "drain rt \<dots> = \<dots>"
    by (rule drain_done) (simp_all add: exec_resumed "0.prems")
  finally show ?case by simp
next
  case (Suc n)
  let ?v = "v\<lparr>microtaskQueue := [Continuation n r], turn := Suc (turn v)\<rparr>"
  have "drain rt v = drain rt (step rt v)"
    by (rule drain_step) (simp add: Suc.prems)
  also have "step rt v = ?v"
    using Suc.prems by (simp add: step_def)
  also have "drain rt ?v =
      exec rt (Continuation 0 r) (?v\<lparr>microtaskQueue := [], turn := Suc (turn ?v + n)\<rparr>)"
    by (rule Suc.IH) (simp_all add: Suc.prems)
  finally show ?case by simp
qed

text \<open>
  With nothing else pending, the event loop runs the resolution in the turn after
  \<open>run\<close>; if the getters returned and the awaited promise settles, the rest resumes a
  turn later, and as many turns later as the promise takes to settle.
\<close>

lemma drain_run:
  assumes "nextTickQueue w = []" "microtaskQueue w = []"
  shows "drain rt (snd (run w c a opts)) =
     (case resolve rt (interceptor (snd (run w c a opts))) of
        (Inl e, I) \<Rightarrow>
          (snd (run w c a opts))
            \<lparr>nextTickQueue := [], turn := Suc (turn w), interceptor := I,
             rejections := rejections w @ [e]\<rparr>
      | (Inr vs, I) \<Rightarrow>
          (case await_all rt vs of
             None \<Rightarrow>
               (snd (run w c a opts))
                 \<lparr>nextTickQueue := [], turn := Suc (turn w), interceptor := I\<rparr>
           | Some (d, r) \<Rightarrow>
               exec rt (Continuation 0 r)
                 ((snd (run w c a opts))
                    \<lparr>nextTickQueue := [], turn := Suc (Suc (turn w + d)), interceptor := I\<rparr>)))"
proof -
  let ?w1 = "snd (run w c a opts)"
  obtain r I where res: "resolve rt (interceptor ?w1) = (r, I)" by fastforce
  have s1: "drain rt ?w1 = drain rt (step rt ?w1)"
    by (rule drain_step) (simp add: run_handle)
  have st: "step rt ?w1 = exec rt Resolution (?w1\<lparr>nextTickQueue := [], turn := Suc (turn w)\<rparr>)"
    using assms by (simp add: step_def run_handle)
  show ?thesis
  proof (cases r)
    case (Inl e)
    have "step rt ?w1 = ?w1\<lparr>nextTickQueue := [], turn := Suc (turn w), interceptor := I,
             rejections := rejections w @ [e]\<rparr>"
      using st res Inl by (simp add: run_handle)
    then show ?thesis using s1 res Inl assms by (simp add: drain_done run_handle)
  next
    case (Inr vs)
    show ?thesis
    proof (cases "await_all rt vs")
      case None
      have "step rt ?w1 = ?w1\<lparr>nextTickQueue := [], turn := Suc (turn w), interceptor := I\<rparr>"
        using st res Inr None by simp
      then show ?thesis using s1 res Inr None assms by (simp add: drain_done run_handle)
    next
      case (Some dr)
      obtain d r' where dr: "dr = (d, r')" by (cases dr) auto
      let ?w2 = "?w1\<lparr>nextTickQueue := [], turn := Suc (turn w), interceptor := I,
             microtaskQueue := [Continuation d r']\<rparr>"
      have w2: "step rt ?w1 = ?w2"
        using st res Inr Some dr assms by (simp add: run_handle)
      have "drain rt ?w2 =
          exec rt (Continuation 0 r') (?w2\<lparr>microtaskQueue := [], turn := Suc (turn ?w2 + d)\<rparr>)"
        by (rule drain_wait) simp_all
      moreover have "?w2\<lparr>microtaskQueue := [], turn := Suc (turn ?w2 + d)\<rparr> =
          ?w1\<lparr>nextTickQueue := [], turn := Suc (Suc (turn w + d)), interceptor := I\<rparr>"
        using assms by (simp add: run_handle)
      ultimately show ?thesis using s1 w2 res Inr Some dr by simp
    qed
  qed
qed

text \<open>Values that are not thenables are awaited for no further turn.\<close>

lemma adopt_plain: "then_method v = None \<Longrightarrow> adopt rt v = Fulfilled 0 v"
  by (simp add: adopt_def)

lemma await_all_plain:
  assumes "then_method code = None" "then_method sig = None" "then_method out = None"
    "then_method err = None"
  shows "await_all rt (code, sig, out, err) = Some (0, Inr (code, sig, out, err))"
  using assms by (simp add: await_all.simps adopt_plain)

lemma writable_cases:
  assumes "writable v"
  obtains s where "v = JStr s" "s \<noteq> []" | "\<not> truthy v" "chunks v = []"
  using assms by (cases v) (auto simp: writable_def chunks_def)

lemma not_writable: "\<not> writable v \<Longrightarrow> truthy v \<and> write_chunk s v = Inl TypeError"
  by (cases v) (simp_all add: writable_def write_chunk_def)

lemma complete_spawned:
  assumes "writable out" "writable err"
  shows "complete t code sig out err (spawned t0 a) =
    (None,
     \<lparr>stdin = PassThrough,
      stdout = \<lparr>written = chunks out, ended = True, errored = False\<rparr>,
      stderr = \<lparr>written = chunks err, ended = True, errored = False\<rparr>,
      spawnargs = a, exitCode = code, signalCode = sig, connected = False,
      events = [(t0, Spawn), (t, Exit code sig), (t, Close code sig)]\<rparr>)"
proof -
  note defs = complete_def spawned_def Let_def emit_def end_stream_def write_chunk_def
    PassThrough_def chunks_def
  from assms(1) show ?thesis
  proof (cases rule: writable_cases)
    case o: (1 s)
    from assms(2) o show ?thesis
      by (cases rule: writable_cases) (simp_all add: defs)
  next
    case o: 2
    from assms(2) o show ?thesis
      by (cases rule: writable_cases) (simp_all add: defs)
  qed
qed

lemma complete_fails:
  assumes "\<not> (writable out \<and> writable err)"
  shows "fst (complete t code sig out err (spawned t0 a)) \<noteq> None \<and>
         events (snd (complete t code sig out err (spawned t0 a))) = [(t0, Spawn)]"
proof (cases "writable out")
  case False
  then show ?thesis
    using not_writable [OF False, of PassThrough]
    by (simp add: complete_def spawned_def Let_def)
next
  case True
  with assms have ne: "\<not> writable err" by simp
  note defs = complete_def spawned_def Let_def end_stream_def
  from True show ?thesis
  proof (cases rule: writable_cases)
    case (1 s)
    then show ?thesis using not_writable [OF ne, of PassThrough]
      by (simp add: defs write_chunk_def [of _ "JStr s"])
  next
    case 2
    then show ?thesis using not_writable [OF ne, of PassThrough]
      by (simp add: defs)
  qed
qed

text \<open>The handle of a \<open>run\<close> with nothing else pending, when the event loop has run.\<close>

lemma handle_resolved:
  assumes "nextTickQueue w = []" "microtaskQueue w = []"
    and "fst (resolve rt (interceptor (snd (run w c a opts)))) = Inr vs"
    and "await_all rt vs = Some (d, Inr (code, sig, out, err))"
    and "writable out" "writable err"
  shows "heap (drain rt (snd (run w c a opts))) ! fst (run w c a opts) =
     \<lparr>stdin = PassThrough,
      stdout = \<lparr>written = chunks out, ended = True, errored = False\<rparr>,
      stderr = \<lparr>written = chunks err, ended = True, errored = False\<rparr>,
      spawnargs = a, exitCode = code, signalCode = sig, connected = False,
      events = [(turn w, Spawn), (Suc (Suc (turn w + d)), Exit code sig),
                (Suc (Suc (turn w + d)), Close code sig)]\<rparr>"
proof -
  let ?w1 = "snd (run w c a opts)"
  obtain I where res: "resolve rt (interceptor ?w1) = (Inr vs, I)"
    using assms(3) by (metis prod.collapse)
  have fr: "same_but_mocks (interceptor ?w1) I" using resolve_frame [of "interceptor ?w1" rt] res by simp
  have ch: "child I = Some (length (heap w))"
    using same_but_mocks_fields [OF fr] by (simp add: run_handle)
  show ?thesis
    using complete_spawned [OF assms(5,6)] ch
    by (simp add: drain_run [OF assms(1,2)] res assms(4) run_handle)
qed

lemma handle_unresolved:
  assumes "nextTickQueue w = []" "microtaskQueue w = []"
    and "(\<exists>e. fst (resolve rt (interceptor (snd (run w c a opts)))) = Inl e) \<or>
         (\<exists>vs. fst (resolve rt (interceptor (snd (run w c a opts)))) = Inr vs \<and>
            (await_all rt vs = None \<or> (\<exists>d e. await_all rt vs = Some (d, Inl e)) \<or>
             (\<exists>d code sig out err. await_all rt vs = Some (d, Inr (code, sig, out, err)) \<and>
                \<not> (writable out \<and> writable err))))"
  shows "events (heap (drain rt (snd (run w c a opts))) ! fst (run w c a opts)) = [(turn w, Spawn)]"
proof -
  let ?w1 = "snd (run w c a opts)"
  obtain r I where res: "resolve rt (interceptor ?w1) = (r, I)" by fastforce
  have fr: "same_but_mocks (interceptor ?w1) I" using resolve_frame [of "interceptor ?w1" rt] res by simp
  have ch: "child I = Some (length (heap w))"
    using same_but_mocks_fields [OF fr] by (simp add: run_handle)
  show ?thesis
  proof (cases r)
    case (Inl e)
    with res show ?thesis
      by (simp add: drain_run [OF assms(1,2)] run_handle spawned_def)
  next
    case (Inr vs)
    with res assms(3) consider
      "await_all rt vs = None"
      | d e where "await_all rt vs = Some (d, Inl e)"
      | d code sig out err where "await_all rt vs = Some (d, Inr (code, sig, out, err))"
          "\<not> (writable out \<and> writable err)"
      by auto
    then show ?thesis
    proof cases
      case 1
      with res Inr show ?thesis
        by (simp add: drain_run [OF assms(1,2)] run_handle spawned_def)
    next
      case 2
      with res Inr show ?thesis
        by (simp add: drain_run [OF assms(1,2)] run_handle spawned_def)
    next
      case 3
      obtain ro ch' where co:
        "complete (Suc (Suc (turn w + d))) code sig out err (spawned (turn w) a) = (ro, ch')"
        by fastforce
      with complete_fails [OF 3(2), of "Suc (Suc (turn w + d))" code sig "turn w" a]
      have "ro \<noteq> None" "events ch' = [(turn w, Spawn)]" by simp_all
      then show ?thesis using res Inr 3(1) co ch
        by (cases ro) (simp_all add: drain_run [OF assms(1,2)] run_handle)
    qed
  qed
qed

lemma resolve_literals:
  assumes "\<not> is_function (mock_exitCode (mocks I))" "\<not> is_function (mock_signal (mocks I))"
    "\<not> is_function (mock_stdout (mocks I))" "\<not> is_function (mock_stderr (mocks I))"
  shows "resolve rt I =
    (Inr (mock_exitCode (mocks I), mock_signal (mocks I), mock_stdout (mocks I),
          mock_stderr (mocks I)), I)"
proof -
  have d: "\<not> is_function v \<Longrightarrow> deferred rt I v = (Inr v, I)" for v
    by (cases v) (simp_all add: deferred_def)
  show ?thesis
    using assms
    by (simp add: resolve_def get_exitCode_def get_signal_def get_stdout_def get_stderr_def d)
qed

section \<open>The events of a handle\<close>

text \<open>
  C2, as corrected. For a \<open>run\<close> with no other job pending: \<open>spawn\<close> is emitted in the
  turn of the call, where \<open>run\<close> only queues the resolution. When the getters return,
  the promise of \<^verbatim>\<open>Promise.all\<close> is fulfilled (every mock value that is a thenable is) and
  the output and error values it gives can be written, the handle has emitted, once the
  event loop has run, \<open>spawn\<close>, then \<open>exit\<close> and \<open>close\<close> next to each other with the
  same code and signal, both in a turn after that of \<open>spawn\<close>: two turns after it, and as
  many more as the promise takes to settle (none when no mock value is a thenable). When a
  deferred mock throws, or the promise is rejected or never settles, the handle emits
  nothing after \<open>spawn\<close>.
\<close>

theorem lifecycle_events:
  assumes "nextTickQueue w = []" and "microtaskQueue w = []"
  shows
    "events (heap (snd (run w c a opts)) ! fst (run w c a opts)) = [(turn w, Spawn)] \<and>
     turn (snd (run w c a opts)) = turn w \<and>
     nextTickQueue (snd (run w c a opts)) = [Resolution] \<and>
     microtaskQueue (snd (run w c a opts)) = [] \<and>
     (\<forall>vs d code sig out err.
        fst (resolve rt (interceptor (snd (run w c a opts)))) = Inr vs \<and>
        await_all rt vs = Some (d, Inr (code, sig, out, err)) \<and>
        writable out \<and> writable err \<longrightarrow>
        events (heap (drain rt (snd (run w c a opts))) ! fst (run w c a opts)) =
          [(turn w, Spawn), (turn w + 2 + d, Exit code sig), (turn w + 2 + d, Close code sig)]) \<and>
     (\<forall>code sig out err.
        then_method code = None \<and> then_method sig = None \<and> then_method out = None \<and>
        then_method err = None \<longrightarrow>
        await_all rt (code, sig, out, err) = Some (0, Inr (code, sig, out, err))) \<and>
     ((\<exists>e. fst (resolve rt (interceptor (snd (run w c a opts)))) = Inl e) \<or>
      (\<exists>vs. fst (resolve rt (interceptor (snd (run w c a opts)))) = Inr vs \<and>
         (await_all rt vs = None \<or> (\<exists>d e. await_all rt vs = Some (d, Inl e)))) \<longrightarrow>
        events (heap (drain rt (snd (run w c a opts))) ! fst (run w c a opts)) = [(turn w, Spawn)]) \<and>
     nextTickQueue (drain rt (snd (run w c a opts))) = [] \<and>
     microtaskQueue (drain rt (snd (run w c a opts))) = []"
proof -
  have 1: "events (heap (snd (run w c a opts)) ! fst (run w c a opts)) = [(turn w, Spawn)]"
    by (simp add: run_handle spawned_def)
  have 2: "turn (snd (run w c a opts)) = turn w" "nextTickQueue (snd (run w c a opts)) = [Resolution]"
    "microtaskQueue (snd (run w c a opts)) = []"
    using assms by (simp_all add: run_handle)
  have 3: "events (heap (drain rt (snd (run w c a opts))) ! fst (run w c a opts)) =
          [(turn w, Spawn), (turn w + 2 + d, Exit code sig), (turn w + 2 + d, Close code sig)]"
    if "fst (resolve rt (interceptor (snd (run w c a opts)))) = Inr vs"
      "await_all rt vs = Some (d, Inr (code, sig, out, err))"
      "writable out" "writable err" for vs d code sig out err
    using handle_resolved [OF assms that] by simp
  have 4: "events (heap (drain rt (snd (run w c a opts))) ! fst (run w c a opts)) = [(turn w, Spawn)]"
    if "(\<exists>e. fst (resolve rt (interceptor (snd (run w c a opts)))) = Inl e) \<or>
      (\<exists>vs. fst (resolve rt (interceptor (snd (run w c a opts)))) = Inr vs \<and>
         (await_all rt vs = None \<or> (\<exists>d e. await_all rt vs = Some (d, Inl e))))"
    by (rule handle_unresolved [OF assms]) (use that in blast)
  have 5: "nextTickQueue (drain rt (snd (run w c a opts))) = [] \<and>
     microtaskQueue (drain rt (snd (run w c a opts))) = []"
    using assms
    by (simp add: drain_run [OF assms] exec_resumed run_handle
        split: prod.splits sum.splits option.splits)
  note 6 = await_all_plain [of _ _ _ _ rt]
  show ?thesis using 1 2 3 4 5 6 by blast
qed

theorem lifecycle_events_witness:
  "nextTickQueue (new_world (set_stdout (Interceptor (JStr ''ls'') JUndefined JUndefined)
      (JStr ''file1 file2''))) = [] \<and>
   microtaskQueue (new_world (set_stdout (Interceptor (JStr ''ls'') JUndefined JUndefined)
      (JStr ''file1 file2''))) = [] \<and>
   fst (resolve example_runtime (interceptor (snd (run
      (new_world (set_stdout (Interceptor (JStr ''ls'') JUndefined JUndefined) (JStr ''file1 file2'')))
      (JStr ''ls'') (JArr []) (JObj []))))) = Inr (JNum 0, JNull, JStr ''file1 file2'', JUndefined) \<and>
   await_all example_runtime (JNum 0, JNull, JStr ''file1 file2'', JUndefined) =
     Some (0, Inr (JNum 0, JNull, JStr ''file1 file2'', JUndefined)) \<and>
   writable (JStr ''file1 file2'') \<and> writable JUndefined \<and>
   events (heap (drain example_runtime (snd (run
      (new_world (set_stdout (Interceptor (JStr ''ls'') JUndefined JUndefined) (JStr ''file1 file2'')))
      (JStr ''ls'') (JArr []) (JObj [])))) ! 0) =
     [(0, Spawn), (2, Exit (JNum 0) JNull), (2, Close (JNum 0) JNull)] \<and>
   fst (resolve example_runtime (interceptor (snd (run
      (new_world (set_exitCode (Interceptor (JStr ''ls'') JUndefined JUndefined) (JFun 4)))
      (JStr ''ls'') (JArr []) (JObj []))))) =
     Inr (JObj [(''then'', JFun 5)], JNull, JUndefined, JUndefined) \<and>
   await_all example_runtime (JObj [(''then'', JFun 5)], JNull, JUndefined, JUndefined) =
     Some (1, Inr (JNum 2, JNull, JUndefined, JUndefined)) \<and>
   events (heap (drain example_runtime (snd (run
      (new_world (set_exitCode (Interceptor (JStr ''ls'') JUndefined JUndefined) (JFun 4)))
      (JStr ''ls'') (JArr []) (JObj [])))) ! 0) =
     [(0, Spawn), (3, Exit (JNum 2) JNull), (3, Close (JNum 2) JNull)] \<and>
   (\<exists>e. fst (resolve example_runtime (interceptor (snd (run
      (new_world (set_exitCode (Interceptor (JStr ''ls'') JUndefined JUndefined) (JFun 2)))
      (JStr ''ls'') (JArr []) (JObj []))))) = Inl e) \<and>
   events (heap (drain example_runtime (snd (run
      (new_world (set_exitCode (Interceptor (JStr ''ls'') JUndefined JUndefined) (JFun 2)))
      (JStr ''ls'') (JArr []) (JObj [])))) ! 0) = [(0, Spawn)] \<and>
   fst (resolve example_runtime (interceptor (snd (run
      (new_world (set_exitCode (Interceptor (JStr ''ls'') JUndefined JUndefined) (JFun 6)))
      (JStr ''ls'') (JArr []) (JObj []))))) =
     Inr (JObj [(''then'', JFun 7)], JNull, JUndefined, JUndefined) \<and>
   await_all example_runtime (JObj [(''then'', JFun 7)], JNull, JUndefined, JUndefined) =
     Some (0, Inl (Thrown (JStr ''boom''))) \<and>
   events (heap (drain example_runtime (snd (run
      (new_world (set_exitCode (Interceptor (JStr ''ls'') JUndefined JUndefined) (JFun 6)))
      (JStr ''ls'') (JArr []) (JObj [])))) ! 0) = [(0, Spawn)]"
proof -
  let ?I = "Interceptor (JStr ''ls'') JUndefined JUndefined"
  let ?w = "new_world (set_stdout ?I (JStr ''file1 file2''))"
  let ?p = "new_world (set_exitCode ?I (JFun 4))"
  let ?v = "new_world (set_exitCode ?I (JFun 2))"
  let ?u = "new_world (set_exitCode ?I (JFun 6))"
  note ev = resolve_def get_exitCode_def get_signal_def get_stdout_def get_stderr_def
    deferred_def call_function_def run_handle new_world_def set_exitCode_def set_stdout_def
    Interceptor_def example_runtime_def example_function_def
  note aw = await_all.simps adopt_def then_method_def example_runtime_def example_settles_def
  have q: "nextTickQueue ?w = []" "microtaskQueue ?w = []" "nextTickQueue ?p = []"
    "microtaskQueue ?p = []" "nextTickQueue ?v = []" "microtaskQueue ?v = []"
    "nextTickQueue ?u = []" "microtaskQueue ?u = []"
    by (simp_all add: new_world_def)
  have r: "fst (resolve example_runtime (interceptor (snd (run ?w (JStr ''ls'') (JArr []) (JObj [])))))
      = Inr (JNum 0, JNull, JStr ''file1 file2'', JUndefined)"
    by (simp add: ev)
  have ra: "await_all example_runtime (JNum 0, JNull, JStr ''file1 file2'', JUndefined) =
     Some (0, Inr (JNum 0, JNull, JStr ''file1 file2'', JUndefined))"
    by (simp add: aw)
  have p: "fst (resolve example_runtime (interceptor (snd (run ?p (JStr ''ls'') (JArr []) (JObj [])))))
      = Inr (JObj [(''then'', JFun 5)], JNull, JUndefined, JUndefined)"
    by (simp add: ev)
  have pa: "await_all example_runtime (JObj [(''then'', JFun 5)], JNull, JUndefined, JUndefined) =
     Some (1, Inr (JNum 2, JNull, JUndefined, JUndefined))"
    by (simp add: aw)
  have t: "fst (resolve example_runtime (interceptor (snd (run ?v (JStr ''ls'') (JArr []) (JObj [])))))
      = Inl (Thrown (JStr ''boom''))"
    by (simp add: ev)
  have u: "fst (resolve example_runtime (interceptor (snd (run ?u (JStr ''ls'') (JArr []) (JObj [])))))
      = Inr (JObj [(''then'', JFun 7)], JNull, JUndefined, JUndefined)"
    by (simp add: ev)
  have ua: "await_all example_runtime (JObj [(''then'', JFun 7)], JNull, JUndefined, JUndefined) =
     Some (0, Inl (Thrown (JStr ''boom'')))"
    by (simp add: aw)
  have wr: "writable (JStr ''file1 file2'')" "writable JUndefined"
    by (simp_all add: writable_def)
  have h: "fst (run ?w (JStr ''ls'') (JArr []) (JObj [])) = 0" "turn ?w = 0"
    "fst (run ?p (JStr ''ls'') (JArr []) (JObj [])) = 0" "turn ?p = 0"
    "fst (run ?v (JStr ''ls'') (JArr []) (JObj [])) = 0" "turn ?v = 0"
    "fst (run ?u (JStr ''ls'') (JArr []) (JObj [])) = 0" "turn ?u = 0"
    by (simp_all add: run_handle new_world_def)
  note L = lifecycle_events [of _ "JStr ''ls''" "JArr []" "JObj []" example_runtime]
  have e1: "events (heap (drain example_runtime (snd (run ?w (JStr ''ls'') (JArr []) (JObj [])))) ! 0) =
     [(0, Spawn), (2, Exit (JNum 0) JNull), (2, Close (JNum 0) JNull)]"
    using L [OF q(1,2)] r ra wr h(1,2) by (simp del: await_all.simps)
  have e2: "events (heap (drain example_runtime (snd (run ?p (JStr ''ls'') (JArr []) (JObj [])))) ! 0) =
     [(0, Spawn), (3, Exit (JNum 2) JNull), (3, Close (JNum 2) JNull)]"
    using L [OF q(3,4)] p pa wr h(3,4) by (simp del: await_all.simps)
  have e3: "events (heap (drain example_runtime (snd (run ?v (JStr ''ls'') (JArr []) (JObj [])))) ! 0) =
     [(0, Spawn)]"
    using L [OF q(5,6)] t h(5,6) by simp
  have e4: "events (heap (drain example_runtime (snd (run ?u (JStr ''ls'') (JArr []) (JObj [])))) ! 0) =
     [(0, Spawn)]"
    using L [OF q(7,8)] u ua h(7,8) by simp
  from t have t': "\<exists>e. fst (resolve example_runtime (interceptor (snd (run ?v (JStr ''ls'')
      (JArr []) (JObj []))))) = Inl e"
    by simp
  show ?thesis
    using q(1,2) r ra wr e1 p pa e2 t' e3 u ua e4 by (simp only: simp_thms)
qed

text \<open>
  A mock that throws: with \<^verbatim>\<open>exit(() => { throw 'boom' })\<close> the handle that \<open>run\<close>
  returned has emitted \<open>spawn\<close> and nothing else when the event loop has no job left.
\<close>

theorem lifecycle_throw_counterexample:
  "events (heap (drain example_runtime (snd (run
      (new_world (set_exitCode (Interceptor (JStr ''ls'') JUndefined JUndefined) (JFun 2)))
      (JStr ''ls'') (JArr []) (JObj [])))) !
    fst (run (new_world (set_exitCode (Interceptor (JStr ''ls'') JUndefined JUndefined) (JFun 2)))
      (JStr ''ls'') (JArr []) (JObj []))) = [(0, Spawn)] \<and>
   nextTickQueue (drain example_runtime (snd (run
      (new_world (set_exitCode (Interceptor (JStr ''ls'') JUndefined JUndefined) (JFun 2)))
      (JStr ''ls'') (JArr []) (JObj [])))) = [] \<and>
   microtaskQueue (drain example_runtime (snd (run
      (new_world (set_exitCode (Interceptor (JStr ''ls'') JUndefined JUndefined) (JFun 2)))
      (JStr ''ls'') (JArr []) (JObj [])))) = [] \<and>
   rejections (drain example_runtime (snd (run
      (new_world (set_exitCode (Interceptor (JStr ''ls'') JUndefined JUndefined) (JFun 2)))
      (JStr ''ls'') (JArr []) (JObj [])))) = [Thrown (JStr ''boom'')]"
proof -
  let ?v = "new_world (set_exitCode (Interceptor (JStr ''ls'') JUndefined JUndefined) (JFun 2))"
  have q: "nextTickQueue ?v = []" "microtaskQueue ?v = []"
    by (simp_all add: new_world_def)
  have t: "resolve example_runtime (interceptor (snd (run ?v (JStr ''ls'') (JArr []) (JObj [])))) =
      (Inl (Thrown (JStr ''boom'')), interceptor (snd (run ?v (JStr ''ls'') (JArr []) (JObj []))))"
    by (simp add: resolve_def get_exitCode_def deferred_def call_function_def run_def Let_def
        new_world_def set_exitCode_def Interceptor_def example_runtime_def example_function_def)
  show ?thesis
    by (simp add: drain_run [OF q] t run_handle spawned_def) (simp add: new_world_def)
qed

section \<open>Default mocks\<close>

text \<open>
  C10. The constructor sets the exit code mock to 0 and the signal mock to null and leaves
  the output and error mocks undefined. On an interceptor whose mocks are still these,
  a \<open>run\<close> with no other job pending ends with a handle whose \<open>exitCode\<close> is 0 and
  \<open>signalCode\<close> null, that has emitted \<open>spawn\<close>, \<open>exit(0, null)\<close> and
  \<open>close(0, null)\<close>, and whose output and error streams were ended with nothing written.
\<close>

theorem default_mocks:
  assumes "mocks (interceptor w) = mocks (Interceptor cmd ar op)"
    and "nextTickQueue w = []" and "microtaskQueue w = []"
  shows
    "mocks (Interceptor cmd ar op) =
       \<lparr>mock_exitCode = JNum 0, mock_signal = JNull, mock_stdout = JUndefined,
        mock_stderr = JUndefined\<rparr> \<and>
     exitCode (heap (drain rt (snd (run w c a opts))) ! fst (run w c a opts)) = JNum 0 \<and>
     signalCode (heap (drain rt (snd (run w c a opts))) ! fst (run w c a opts)) = JNull \<and>
     events (heap (drain rt (snd (run w c a opts))) ! fst (run w c a opts)) =
       [(turn w, Spawn), (turn w + 2, Exit (JNum 0) JNull), (turn w + 2, Close (JNum 0) JNull)] \<and>
     written (stdout (heap (drain rt (snd (run w c a opts))) ! fst (run w c a opts))) = [] \<and>
     ended (stdout (heap (drain rt (snd (run w c a opts))) ! fst (run w c a opts))) \<and>
     written (stderr (heap (drain rt (snd (run w c a opts))) ! fst (run w c a opts))) = [] \<and>
     ended (stderr (heap (drain rt (snd (run w c a opts))) ! fst (run w c a opts))) \<and>
     rejections (drain rt (snd (run w c a opts))) = rejections w"
proof -
  have m: "mocks (Interceptor cmd ar op) =
       \<lparr>mock_exitCode = JNum 0, mock_signal = JNull, mock_stdout = JUndefined,
        mock_stderr = JUndefined\<rparr>"
    by (simp add: Interceptor_def)
  have mi: "mocks (interceptor (snd (run w c a opts))) = mocks (Interceptor cmd ar op)"
    using assms(1) by (simp add: run_handle)
  have r: "resolve rt (interceptor (snd (run w c a opts))) =
      (Inr (JNum 0, JNull, JUndefined, JUndefined), interceptor (snd (run w c a opts)))"
    by (simp add: resolve_literals mi m)
  have wr: "writable JUndefined" by (simp add: writable_def)
  have aw: "await_all rt (JNum 0, JNull, JUndefined, JUndefined) =
      Some (0, Inr (JNum 0, JNull, JUndefined, JUndefined))"
    by (rule await_all_plain) (simp_all add: then_method_def)
  have h: "heap (drain rt (snd (run w c a opts))) ! fst (run w c a opts) =
     \<lparr>stdin = PassThrough,
      stdout = \<lparr>written = chunks JUndefined, ended = True, errored = False\<rparr>,
      stderr = \<lparr>written = chunks JUndefined, ended = True, errored = False\<rparr>,
      spawnargs = a, exitCode = JNum 0, signalCode = JNull, connected = False,
      events = [(turn w, Spawn), (Suc (Suc (turn w)), Exit (JNum 0) JNull),
                (Suc (Suc (turn w)), Close (JNum 0) JNull)]\<rparr>"
    using handle_resolved [OF assms(2,3) _ aw wr wr, of c a opts] r by simp
  have ch: "child (interceptor (snd (run w c a opts))) = Some (length (heap w))"
    by (simp add: run_handle)
  have rj: "rejections (drain rt (snd (run w c a opts))) = rejections w"
    using complete_spawned [OF wr wr, of "Suc (Suc (turn w))" "JNum 0" JNull "turn w" a] ch
    by (simp add: drain_run [OF assms(2,3)] r aw run_handle)
  show ?thesis using m h rj by (simp add: chunks_def)
qed

theorem default_mocks_witness:
  "mocks (interceptor (new_world (Interceptor (JStr ''ls'') JUndefined JUndefined))) =
     mocks (Interceptor (JStr ''ls'') JUndefined JUndefined) \<and>
   nextTickQueue (new_world (Interceptor (JStr ''ls'') JUndefined JUndefined)) = [] \<and>
   microtaskQueue (new_world (Interceptor (JStr ''ls'') JUndefined JUndefined)) = [] \<and>
   exitCode (heap (drain example_runtime (snd (run
     (new_world (Interceptor (JStr ''ls'') JUndefined JUndefined))
     (JStr ''ls'') (JArr []) (JObj [])))) ! 0) = JNum 0 \<and>
   events (heap (drain example_runtime (snd (run
     (new_world (Interceptor (JStr ''ls'') JUndefined JUndefined))
     (JStr ''ls'') (JArr []) (JObj [])))) ! 0) =
     [(0, Spawn), (2, Exit (JNum 0) JNull), (2, Close (JNum 0) JNull)]"
proof -
  let ?w = "new_world (Interceptor (JStr ''ls'') JUndefined JUndefined)"
  have h: "mocks (interceptor ?w) = mocks (Interceptor (JStr ''ls'') JUndefined JUndefined)"
    "nextTickQueue ?w = []" "microtaskQueue ?w = []"
    by (simp_all add: new_world_def)
  have t: "fst (run ?w (JStr ''ls'') (JArr []) (JObj [])) = 0" "turn ?w = 0"
    by (simp_all add: run_handle new_world_def)
  show ?thesis
    using h t default_mocks [OF h, of example_runtime "JStr ''ls''" "JArr []" "JObj []"]
    by simp
qed

section \<open>Deferred mocks\<close>











end
